theory Spec2Isabelle
  imports Complex_Main
begin

section \<open>Python values used by the transport and queue code\<close>

text \<open>
  Python \<open>str\<close> and \<open>bytes\<close> values are modelled as \<open>string\<close> (lists of 8-bit
  characters); a \<open>str\<close> is held in its UTF-8 encoding, so the Chinese literals of the
  source appear as their UTF-8 bytes. Python \<open>float\<close> values (clock readings, delays,
  bandwidth samples) are modelled as \<open>real\<close>.
\<close>

text \<open>
  A parsed JSON document. The pairs of a \<open>JDict\<close> are the items of a Python dictionary:
  \<open>json.loads\<close> yields every key once.
\<close>

datatype json =
    JNull
  | JBool bool
  | JInt int
  | JFloat real
  | JStr string
  | JList "json list"
  | JDict "(string \<times> json) list"

text \<open>
  An exception is its class, as far as the \<open>except\<close> clauses of the source tell classes
  apart, and its message \<open>str(e)\<close>: \<open>SocketError\<close> stands for \<open>socket.error\<close> (that is
  \<open>OSError\<close>) and its subclasses, \<open>JSONDecodeError\<close> for \<open>json.JSONDecodeError\<close>, and
  \<open>OtherException\<close> for every other subclass of \<open>Exception\<close>.
\<close>

datatype exc =
    SocketError string
  | JSONDecodeError string
  | OtherException string

fun str_exc :: "exc \<Rightarrow> string" where
  "str_exc (SocketError m) = m"
| "str_exc (JSONDecodeError m) = m"
| "str_exc (OtherException m) = m"

text \<open>\<open>data.startswith(p)\<close> and the substring test \<open>p in s\<close>.\<close>

fun startswith :: "string \<Rightarrow> string \<Rightarrow> bool" where
  "startswith s [] = True"
| "startswith [] (p # ps) = False"
| "startswith (c # cs) (p # ps) = (c = p \<and> startswith cs ps)"

fun contains :: "string \<Rightarrow> string \<Rightarrow> bool" where
  "contains p [] = (p = [])"
| "contains p (c # cs) = (startswith (c # cs) p \<or> contains p cs)"

text \<open>\<open>s.lower()\<close>, on the ASCII range.\<close>

definition lower_char :: "char \<Rightarrow> char" where
  "lower_char c =
     (if 65 \<le> (of_char c :: nat) \<and> (of_char c :: nat) \<le> 90
      then char_of ((of_char c :: nat) + 32) else c)"

definition lower :: "string \<Rightarrow> string" where
  "lower s = map lower_char s"

text \<open>
  White space, as \<open>str.strip()\<close> and \<open>str.split()\<close> see it (\<open>str.isspace\<close>): the ASCII
  characters 9 to 13, 28 to 31 and 32, and, in their UTF-8 encoding, U+0085 and U+00A0
  (two bytes) and U+1680, U+2000 to U+200A, U+2028, U+2029, U+202F, U+205F and U+3000
  (three bytes). A first byte of one of these encodings never occurs inside the encoding
  of another character.
\<close>

definition is_space :: "char \<Rightarrow> bool" where
  "is_space c = ((of_char c :: nat) = 32 \<or> (9 \<le> (of_char c :: nat) \<and> (of_char c :: nat) \<le> 13)
                 \<or> (28 \<le> (of_char c :: nat) \<and> (of_char c :: nat) \<le> 31))"

definition is_space2 :: "char \<Rightarrow> char \<Rightarrow> bool" where
  "is_space2 a b = (a = CHR 0xC2 \<and> (b = CHR 0x85 \<or> b = CHR 0xA0))"

definition is_space3 :: "char \<Rightarrow> char \<Rightarrow> char \<Rightarrow> bool" where
  "is_space3 a b c =
     ((a = CHR 0xE1 \<and> b = CHR 0x9A \<and> c = CHR 0x80)
      \<or> (a = CHR 0xE2 \<and> b = CHR 0x80
          \<and> ((128 \<le> (of_char c :: nat) \<and> (of_char c :: nat) \<le> 138)
              \<or> c = CHR 0xA8 \<or> c = CHR 0xA9 \<or> c = CHR 0xAF))
      \<or> (a = CHR 0xE2 \<and> b = CHR 0x81 \<and> c = CHR 0x9F)
      \<or> (a = CHR 0xE3 \<and> b = CHR 0x80 \<and> c = CHR 0x80))"

text \<open>\<open>s.lstrip()\<close>: white space is dropped from the head, character by character.\<close>

fun lstrip :: "string \<Rightarrow> string" where
  "lstrip (a # b # c # s) =
     (if is_space a then lstrip (b # c # s)
      else if is_space2 a b then lstrip (c # s)
      else if is_space3 a b c then lstrip s
      else a # b # c # s)"
| "lstrip [a, b] = (if is_space a then lstrip [b] else if is_space2 a b then [] else [a, b])"
| "lstrip [a] = (if is_space a then [] else [a])"
| "lstrip [] = []"

text \<open>
  The same from the tail, on the reversed string: the bytes of a character come last
  byte first.
\<close>

fun lstrip_reversed :: "string \<Rightarrow> string" where
  "lstrip_reversed (c # b # a # s) =
     (if is_space c then lstrip_reversed (b # a # s)
      else if is_space2 b c then lstrip_reversed (a # s)
      else if is_space3 a b c then lstrip_reversed s
      else c # b # a # s)"
| "lstrip_reversed [c, b] =
     (if is_space c then lstrip_reversed [b] else if is_space2 b c then [] else [c, b])"
| "lstrip_reversed [c] = (if is_space c then [] else [c])"
| "lstrip_reversed [] = []"

definition strip :: "string \<Rightarrow> string" where
  "strip s = rev (lstrip_reversed (rev (lstrip s)))"

text \<open>The characters up to the next white space.\<close>

fun until_space :: "string \<Rightarrow> string" where
  "until_space (a # b # c # s) =
     (if is_space a \<or> is_space2 a b \<or> is_space3 a b c then []
      else a # until_space (b # c # s))"
| "until_space [a, b] = (if is_space a \<or> is_space2 a b then [] else a # until_space [b])"
| "until_space [a] = (if is_space a then [] else [a])"
| "until_space [] = []"

text \<open>\<open>str(n)\<close> for an integer, and \<open>int(x)\<close> for a float (truncation towards zero).\<close>

fun str_nat :: "nat \<Rightarrow> string" where
  "str_nat n = (if n < 10 then [char_of (48 + n)]
                else str_nat (n div 10) @ [char_of (48 + n mod 10)])"

declare str_nat.simps [simp del]

definition str_int :: "int \<Rightarrow> string" where
  "str_int i = (if i < 0 then CHR ''-'' # str_nat (nat (- i)) else str_nat (nat i))"

definition py_int :: "real \<Rightarrow> int" where
  "py_int x = (if 0 \<le> x then \<lfloor>x\<rfloor> else \<lceil>x\<rceil>)"

text \<open>
  The library functions the code calls and this development does not re-implement:
  \<open>gzip.compress\<close>, \<open>gzip.decompress\<close> (\<open>None\<close> when it raises), \<open>json.loads\<close> (\<open>Inl\<close> the
  exception it raises), \<open>str\<close> of a parsed document and \<open>float\<close> of a string (\<open>None\<close>
  when it raises).
\<close>

record library =
  gzip_compress :: "string \<Rightarrow> string"
  gzip_decompress :: "string \<Rightarrow> string option"
  json_loads :: "string \<Rightarrow> exc + json"
  py_str :: "json \<Rightarrow> string"
  py_float :: "string \<Rightarrow> real option"


section \<open>The durable message queue (\<open>async_proxy.MessageQueue\<close>)\<close>

datatype status = Pending | Processing | Completed | Failed

text \<open>
  A callback is a Python callable applied to one document; the model keeps whether the
  call returns (\<open>None\<close>) or raises (\<open>Some e\<close>).
\<close>

type_synonym callback = "json \<Rightarrow> exc option"

text \<open>
  The dictionary a caller hands to \<open>enqueue\<close>: \<open>send_command\<close> fills every key, a direct
  caller may leave out \<open>id\<close>, \<open>proxy_command\<close> and \<open>callback\<close>.
\<close>

record queue_request =
  req_id :: "string option"
  req_command :: string
  req_target_server :: string
  req_proxy_command :: "string option"
  req_callback :: "callback option"

text \<open>
  A queue item, once \<open>enqueue\<close> has set \<open>id\<close>, \<open>status\<close>, \<open>timestamp\<close> and \<open>sequence\<close>
  (its two readings of the clock are taken as one).
  The keys added later (\<open>processing_time\<close>, \<open>completion_time\<close>, \<open>result\<close>, \<open>error\<close>) are
  optional.
\<close>

record queue_item =
  item_id :: string
  item_status :: status
  item_timestamp :: real
  item_sequence :: nat
  item_command :: string
  item_target_server :: string
  item_proxy_command :: "string option"
  item_callback :: "callback option"
  item_processing_time :: "real option"
  item_completion_time :: "real option"
  item_result :: "json option"
  item_error :: "string option"

record message_queue =
  queue :: "queue_item list"
  processing :: "string set"

text \<open>The index of the first element that satisfies a test: a \<open>for\<close> loop with an early exit.\<close>

fun first_index :: "('a \<Rightarrow> bool) \<Rightarrow> 'a list \<Rightarrow> nat option" where
  "first_index P [] = None"
| "first_index P (x # xs) =
     (if P x then Some 0 else map_option Suc (first_index P xs))"

definition default_id :: "real \<Rightarrow> nat \<Rightarrow> string" where
  "default_id now n = ''msg_'' @ str_int (py_int now) @ ''_'' @ str_nat n"

definition enqueue :: "real \<Rightarrow> queue_request \<Rightarrow> message_queue \<Rightarrow> string \<times> message_queue" where
  "enqueue now req q =
     (let n = length (queue q);
          iid = (case req_id req of Some i \<Rightarrow> i | None \<Rightarrow> default_id now n);
          item = \<lparr>item_id = iid, item_status = Pending, item_timestamp = now,
                  item_sequence = n, item_command = req_command req,
                  item_target_server = req_target_server req,
                  item_proxy_command = req_proxy_command req,
                  item_callback = req_callback req,
                  item_processing_time = None, item_completion_time = None,
                  item_result = None, item_error = None\<rparr>
      in (iid, q\<lparr>queue := queue q @ [item]\<rparr>))"

text \<open>The test of the loop in \<open>dequeue\<close>.\<close>

definition eligible :: "string set \<Rightarrow> queue_item \<Rightarrow> bool" where
  "eligible P item = (item_status item = Pending \<and> item_id item \<notin> P)"

definition dequeue :: "real \<Rightarrow> message_queue \<Rightarrow> queue_item option \<times> message_queue" where
  "dequeue now q =
     (case first_index (eligible (processing q)) (queue q) of
        None \<Rightarrow> (None, q)
      | Some i \<Rightarrow>
          (let item = (queue q ! i)\<lparr>item_status := Processing,
                                     item_processing_time := Some now\<rparr>
           in (Some item, q\<lparr>queue := (queue q)[i := item],
                              processing := insert (item_id item) (processing q)\<rparr>)))"

text \<open>
  \<open>complete\<close> and \<open>fail\<close> update the first item with the given id, then
  \<open>self.processing.remove(item_id)\<close>, which raises \<open>KeyError\<close> when the id is not in the
  set: the item is already updated then. The message of a \<open>KeyError\<close> is the key in
  quotes.
\<close>

definition key_error :: "string \<Rightarrow> exc" where
  "key_error k = OtherException ([CHR 0x27] @ k @ [CHR 0x27])"

definition complete :: "real \<Rightarrow> string \<Rightarrow> json \<Rightarrow> message_queue \<Rightarrow> (exc + bool) \<times> message_queue" where
  "complete now iid res q =
     (case first_index (\<lambda>item. item_id item = iid) (queue q) of
        None \<Rightarrow> (Inr False, q)
      | Some i \<Rightarrow>
          (let item = (queue q ! i)\<lparr>item_status := Completed, item_result := Some res,
                                     item_completion_time := Some now\<rparr>;
               q1 = q\<lparr>queue := (queue q)[i := item]\<rparr>
           in if iid \<in> processing q
              then (Inr True, q1\<lparr>processing := processing q - {iid}\<rparr>)
              else (Inl (key_error iid), q1)))"

definition fail :: "real \<Rightarrow> string \<Rightarrow> string \<Rightarrow> message_queue \<Rightarrow> (exc + bool) \<times> message_queue" where
  "fail now iid err q =
     (case first_index (\<lambda>item. item_id item = iid) (queue q) of
        None \<Rightarrow> (Inr False, q)
      | Some i \<Rightarrow>
          (let item = (queue q ! i)\<lparr>item_status := Failed, item_error := Some err,
                                     item_completion_time := Some now\<rparr>;
               q1 = q\<lparr>queue := (queue q)[i := item]\<rparr>
           in if iid \<in> processing q
              then (Inr True, q1\<lparr>processing := processing q - {iid}\<rparr>)
              else (Inl (key_error iid), q1)))"

text \<open>
  What \<open>_load_queue\<close> finds on disk: no file, a file whose loading raises, or the pickled
  list of items.
\<close>

datatype queue_file = NoFile | Unreadable | Pickled "queue_item list"

definition reset_item :: "queue_item \<Rightarrow> queue_item" where
  "reset_item item =
     (if item_status item = Processing then item\<lparr>item_status := Pending\<rparr> else item)"

definition load_queue :: "queue_file \<Rightarrow> message_queue \<Rightarrow> message_queue" where
  "load_queue f q =
     (case f of
        NoFile \<Rightarrow> q
      | Unreadable \<Rightarrow> q\<lparr>queue := []\<rparr>
      | Pickled items \<Rightarrow> q\<lparr>queue := map reset_item items, processing := {}\<rparr>)"

definition init_queue :: "queue_file \<Rightarrow> message_queue" where
  "init_queue f = load_queue f \<lparr>queue = [], processing = {}\<rparr>"

section \<open>The queue worker (\<open>async_proxy.AsyncProxyManager\<close>)\<close>

fun type_name :: "json \<Rightarrow> string" where
  "type_name JNull = ''NoneType''"
| "type_name (JBool b) = ''bool''"
| "type_name (JInt i) = ''int''"
| "type_name (JFloat x) = ''float''"
| "type_name (JStr s) = ''str''"
| "type_name (JList xs) = ''list''"
| "type_name (JDict kvs) = ''dict''"

definition attribute_error :: "json \<Rightarrow> string \<Rightarrow> exc" where
  "attribute_error v attr =
     OtherException ([CHR 0x27] @ type_name v @ [CHR 0x27] @ '' object has no attribute ''
                     @ [CHR 0x27] @ attr @ [CHR 0x27])"

text \<open>
  What one iteration of the worker loop meets outside the queue: the clock readings and the
  outcome of \<open>await self.remote.run_async(proxy_command)\<close>, an exception or the output
  string.
\<close>

record worker_env =
  now_dequeue :: real
  run_result :: "exc + string"
  now_parse_callback :: real
  now_parse_return :: real
  now_exec_callback :: real
  now_exec_return :: real
  now_complete :: real

text \<open>The UTF-8 bytes of the two message prefixes of \<open>_execute_proxy_command\<close>.\<close>

definition parse_failed_prefix :: string where
  "parse_failed_prefix =
     [CHR 0xE8, CHR 0xA7, CHR 0xA3, CHR 0xE6, CHR 0x9E, CHR 0x90, CHR 0xE5, CHR 0x8F, CHR 0x8D,
      CHR 0xE9, CHR 0xA6, CHR 0x88, CHR 0xE5, CHR 0xA4, CHR 0xB1, CHR 0xE8, CHR 0xB4, CHR 0xA5]
     @ '': ''"

definition exec_failed_prefix :: string where
  "exec_failed_prefix =
     [CHR 0xE6, CHR 0x89, CHR 0xA7, CHR 0xE8, CHR 0xA1, CHR 0x8C, CHR 0xE4, CHR 0xBB, CHR 0xA3,
      CHR 0xE7, CHR 0x90, CHR 0x86, CHR 0xE5, CHR 0x91, CHR 0xBD, CHR 0xE4, CHR 0xBB, CHR 0xA4,
      CHR 0xE5, CHR 0xA4, CHR 0xB1, CHR 0xE8, CHR 0xB4, CHR 0xA5]
     @ '': ''"

definition error_dict :: "string \<Rightarrow> string \<Rightarrow> real \<Rightarrow> json" where
  "error_dict command_id error_msg now =
     JDict [(''id'', JStr command_id), (''status'', JStr ''error''),
            (''result'', JStr error_msg), (''timestamp'', JFloat now)]"

text \<open>\<open>if callback: callback(arg)\<close>: \<open>Some e\<close> when the call raises \<open>e\<close>.\<close>

definition run_callback :: "callback option \<Rightarrow> json \<Rightarrow> exc option" where
  "run_callback cb arg = (case cb of None \<Rightarrow> None | Some f \<Rightarrow> f arg)"

text \<open>The inner \<open>try\<close> block: parse the feedback, read its status, notify the callback.\<close>

definition parse_feedback :: "library \<Rightarrow> string \<Rightarrow> callback option \<Rightarrow> exc + json" where
  "parse_feedback lib res cb =
     (case json_loads lib (strip res) of
        Inl e \<Rightarrow> Inl e
      | Inr feedback \<Rightarrow>
          (case feedback of
             JDict kvs \<Rightarrow>
               (case run_callback cb feedback of
                  Some e \<Rightarrow> Inl e
                | None \<Rightarrow> Inr feedback)
           | _ \<Rightarrow> Inl (attribute_error feedback ''get'')))"

text \<open>The handler of the inner \<open>try\<close>; what it raises reaches the outer handler.\<close>

definition on_parse_error :: "worker_env \<Rightarrow> string \<Rightarrow> callback option \<Rightarrow> exc \<Rightarrow> exc + json" where
  "on_parse_error env command_id cb e =
     (let error_msg = parse_failed_prefix @ str_exc e in
      case run_callback cb (error_dict command_id error_msg (now_parse_callback env)) of
        Some e' \<Rightarrow> Inl e'
      | None \<Rightarrow> Inr (error_dict command_id error_msg (now_parse_return env)))"

text \<open>The handler of the outer \<open>try\<close>; what it raises leaves the function.\<close>

definition on_exec_error :: "worker_env \<Rightarrow> string \<Rightarrow> callback option \<Rightarrow> exc \<Rightarrow> exc + json" where
  "on_exec_error env command_id cb e =
     (let error_msg = exec_failed_prefix @ str_exc e in
      case run_callback cb (error_dict command_id error_msg (now_exec_callback env)) of
        Some e' \<Rightarrow> Inl e'
      | None \<Rightarrow> Inr (error_dict command_id error_msg (now_exec_return env)))"

definition execute_proxy_command ::
  "library \<Rightarrow> worker_env \<Rightarrow> string \<Rightarrow> string \<Rightarrow> callback option \<Rightarrow> exc + json" where
  "execute_proxy_command lib env proxy_command command_id cb =
     (case run_result env of
        Inl e \<Rightarrow> on_exec_error env command_id cb e
      | Inr res \<Rightarrow>
          (case parse_feedback lib res cb of
             Inr feedback \<Rightarrow> Inr feedback
           | Inl e \<Rightarrow>
               (case on_parse_error env command_id cb e of
                  Inr d \<Rightarrow> Inr d
                | Inl e' \<Rightarrow> on_exec_error env command_id cb e')))"

text \<open>
  One iteration of the \<open>while True\<close> loop of \<open>_process_queue\<close>. Every exception of the body
  is caught by the loop's handler, which prints and sleeps: the queue stays as the
  exception left it.
\<close>

definition process_queue_step :: "library \<Rightarrow> worker_env \<Rightarrow> message_queue \<Rightarrow> message_queue" where
  "process_queue_step lib env q =
     (case dequeue (now_dequeue env) q of
        (None, q1) \<Rightarrow> q1
      | (Some item, q1) \<Rightarrow>
          (case item_proxy_command item of
             None \<Rightarrow> q1
           | Some pc \<Rightarrow>
               (case execute_proxy_command lib env pc (item_id item) (item_callback item) of
                  Inl e \<Rightarrow> q1
                | Inr res \<Rightarrow> snd (complete (now_complete env) (item_id item) res q1))))"

text \<open>The loop never returns; a run of it is a finite number of iterations.\<close>

fun process_queue :: "library \<Rightarrow> worker_env list \<Rightarrow> message_queue \<Rightarrow> message_queue" where
  "process_queue lib [] q = q"
| "process_queue lib (env # envs) q = process_queue lib envs (process_queue_step lib env q)"

subsection \<open>Producers and the worker, interleaved\<close>

text \<open>
  \<open>send_command\<close> and the worker are coroutines of one event loop. The worker gives way at
  \<open>await self.remote.run_async(...)\<close>, so an \<open>enqueue\<close> can run between the worker's
  \<open>dequeue\<close> and its \<open>complete\<close>. The state is the queue and the item the worker holds;
  an event is an \<open>enqueue\<close>, the worker's \<open>dequeue\<close> (with the lookup of
  \<open>item['proxy_command']\<close> that follows it), or the rest of the worker's iteration.
\<close>

record worker_state =
  ws_queue :: message_queue
  in_flight :: "queue_item option"

datatype queue_event = Enqueue real queue_request | Claim real | Finish worker_env

fun queue_step :: "library \<Rightarrow> queue_event \<Rightarrow> worker_state \<Rightarrow> worker_state" where
  "queue_step lib (Enqueue now req) ws = ws\<lparr>ws_queue := snd (enqueue now req (ws_queue ws))\<rparr>"
| "queue_step lib (Claim now) ws =
     (case in_flight ws of
        Some busy \<Rightarrow> ws
      | None \<Rightarrow>
          (case dequeue now (ws_queue ws) of
             (None, q1) \<Rightarrow> ws\<lparr>ws_queue := q1\<rparr>
           | (Some item, q1) \<Rightarrow>
               (case item_proxy_command item of
                  None \<Rightarrow> \<lparr>ws_queue = q1, in_flight = None\<rparr>
                | Some pc \<Rightarrow> \<lparr>ws_queue = q1, in_flight = Some item\<rparr>)))"
| "queue_step lib (Finish env) ws =
     (case in_flight ws of
        None \<Rightarrow> ws
      | Some item \<Rightarrow>
          (case item_proxy_command item of
             None \<Rightarrow> ws\<lparr>in_flight := None\<rparr>
           | Some pc \<Rightarrow>
               (case execute_proxy_command lib env pc (item_id item) (item_callback item) of
                  Inl e \<Rightarrow> ws\<lparr>in_flight := None\<rparr>
                | Inr res \<Rightarrow>
                    \<lparr>ws_queue = snd (complete (now_complete env) (item_id item) res (ws_queue ws)),
                     in_flight = None\<rparr>)))"

fun run_queue :: "library \<Rightarrow> queue_event list \<Rightarrow> worker_state \<Rightarrow> worker_state" where
  "run_queue lib [] ws = ws"
| "run_queue lib (e # es) ws = run_queue lib es (queue_step lib e ws)"

definition idle_worker :: worker_state where
  "idle_worker = \<lparr>ws_queue = \<lparr>queue = [], processing = {}\<rparr>, in_flight = None\<rparr>"

text \<open>
  Two invariants of the interleaved runs, used in the proofs below. The first holds in
  every run in which the item ids stay pairwise distinct: positions are sequence numbers,
  and an id in the processing set belongs to an item that is no longer pending. The second
  holds when, moreover, every item has a \<open>proxy_command\<close> and a callback that does not
  raise: what is not pending any more has only completed items before it.
\<close>

definition sequence_inv :: "message_queue \<Rightarrow> bool" where
  "sequence_inv q =
     (distinct (map item_id (queue q))
      \<and> (\<forall>j<length (queue q). item_sequence (queue q ! j) = j)
      \<and> (\<forall>p\<in>processing q. \<exists>j<length (queue q).
             item_id (queue q ! j) = p \<and> item_status (queue q ! j) \<noteq> Pending))"

definition well_behaved :: "queue_item \<Rightarrow> bool" where
  "well_behaved item =
     (item_proxy_command item \<noteq> None \<and> (\<forall>arg. run_callback (item_callback item) arg = None))"

definition fifo_inv :: "worker_state \<Rightarrow> bool" where
  "fifo_inv ws =
     (let xs = queue (ws_queue ws) in
      (\<forall>j<length xs. item_status (xs ! j) \<noteq> Failed)
      \<and> (\<forall>j<length xs. item_status (xs ! j) \<noteq> Pending \<longrightarrow>
             (\<forall>i<j. item_status (xs ! i) = Completed))
      \<and> (case in_flight ws of
            None \<Rightarrow> processing (ws_queue ws) = {}
                     \<and> (\<forall>j<length xs. item_status (xs ! j) \<noteq> Processing)
          | Some item \<Rightarrow>
              processing (ws_queue ws) = {item_id item}
              \<and> (\<exists>k<length xs. xs ! k = item \<and> item_status item = Processing
                     \<and> (\<forall>j<length xs. j \<noteq> k \<longrightarrow> item_status (xs ! j) \<noteq> Processing))))"

text \<open>The fields of an item that no operation of the queue changes.\<close>

definition item_key :: "queue_item \<Rightarrow> string \<times> nat \<times> string option \<times> callback option" where
  "item_key it = (item_id it, item_sequence it, item_proxy_command it, item_callback it)"

subsection \<open>Sample inputs of the queue and its worker\<close>

text \<open>
  A stand-in for the library, for evaluating the definitions on concrete inputs: a
  two-byte header in front of the data for gzip, and a parser that knows two documents
  (the text \<open>{error}\<close> stands for a response with an \<open>error\<close> member).
\<close>

definition sample_library :: library where
  "sample_library =
     \<lparr>gzip_compress = (\<lambda>d. [CHR 0x1F, CHR 0x8B] @ d),
      gzip_decompress = (\<lambda>z. if startswith z [CHR 0x1F, CHR 0x8B] then Some (drop 2 z) else None),
      json_loads = (\<lambda>s. if s = ''{}'' then Inr (JDict [])
                         else if s = ''{error}'' then
                           Inr (JDict [(''error'', JDict [(''code'', JInt 401),
                                  (''message'', JStr ''Authentication failed'')])])
                         else Inl (JSONDecodeError ''Expecting value'')),
      py_str = (\<lambda>v. ''{}''),
      py_float = (\<lambda>s. None)\<rparr>"

definition empty_queue :: message_queue where
  "empty_queue = \<lparr>queue = [], processing = {}\<rparr>"

definition sample_request :: "string \<Rightarrow> callback option \<Rightarrow> queue_request" where
  "sample_request i cb =
     \<lparr>req_id = Some i, req_command = ''uptime'', req_target_server = ''target1'',
      req_proxy_command = Some ''python -c uptime'', req_callback = cb\<rparr>"

definition sample_env :: worker_env where
  "sample_env =
     \<lparr>now_dequeue = 10, run_result = Inr ''{}'', now_parse_callback = 11,
      now_parse_return = 12, now_exec_callback = 13, now_exec_return = 14,
      now_complete = 15\<rparr>"

text \<open>A callback that raises on every call.\<close>

definition raising_callback :: callback where
  "raising_callback arg = Some (OtherException ''callback failed'')"

definition one_item_queue :: message_queue where
  "one_item_queue = snd (enqueue 1 (sample_request ''a'' None) empty_queue)"

text \<open>
  Two requests under distinct ids, the first already completed by the worker; an
  environment in which running the command raises, and one in which its output is not
  JSON.
\<close>

definition second_pending_queue :: message_queue where
  "second_pending_queue =
     process_queue_step sample_library sample_env
       (snd (enqueue 2 (sample_request ''b'' None) one_item_queue))"

definition failing_env :: worker_env where
  "failing_env = sample_env\<lparr>run_result := Inl (SocketError ''timed out'')\<rparr>"

definition garbled_env :: worker_env where
  "garbled_env = sample_env\<lparr>run_result := Inr ''not json''\<rparr>"

definition raising_item_queue :: message_queue where
  "raising_item_queue = snd (enqueue 1 (sample_request ''a'' (Some raising_callback)) empty_queue)"

text \<open>Three requests, the first two under the same id.\<close>

definition same_id_queue :: message_queue where
  "same_id_queue =
     snd (enqueue 3 (sample_request ''y'' None)
       (snd (enqueue 2 (sample_request ''x'' None)
         (snd (enqueue 1 (sample_request ''x'' None) empty_queue)))))"

text \<open>A persisted queue whose second item was in flight when the process stopped.\<close>

definition persisted_items :: "queue_item list" where
  "persisted_items =
     [\<lparr>item_id = ''a'', item_status = Completed, item_timestamp = 1, item_sequence = 0,
       item_command = ''uptime'', item_target_server = ''target1'',
       item_proxy_command = Some ''python -c uptime'', item_callback = None,
       item_processing_time = Some 2, item_completion_time = Some 3,
       item_result = Some (JDict []), item_error = None\<rparr>,
      \<lparr>item_id = ''b'', item_status = Processing, item_timestamp = 4, item_sequence = 1,
       item_command = ''df -h'', item_target_server = ''target1'',
       item_proxy_command = Some ''python -c df'', item_callback = None,
       item_processing_time = Some 5, item_completion_time = None,
       item_result = None, item_error = None\<rparr>]"

text \<open>Three requests under distinct ids, then one iteration of the worker.\<close>

definition sample_events :: "queue_event list" where
  "sample_events =
     [Enqueue 1 (sample_request ''a'' None), Enqueue 2 (sample_request ''b'' None),
      Enqueue 3 (sample_request ''c'' None), Claim 10, Finish sample_env]"


section \<open>The RPC channel (\<open>core_optimized.RcoderCore._call\<close>)\<close>

subsection \<open>Configuration and state\<close>

text \<open>
  The fields of \<open>RcoderCore\<close> that \<open>_call\<close> and \<open>execute\<close> read. \<open>pool_maxsize\<close> is
  the \<open>maxsize\<close> of \<open>self._connection_pool\<close>, fixed by the constructor; a \<open>queue.Queue\<close>
  with \<open>maxsize <= 0\<close> is never full. \<open>password\<close> is \<open>None\<close> when \<open>self.password\<close> is
  \<open>None\<close> or empty.
\<close>

record core_config =
  enable_compression :: bool
  enable_connection_pool :: bool
  pool_maxsize :: int
  connection_expiry :: real
  retry_delay :: real
  max_retry_delay :: real
  enable_exponential_backoff :: bool
  password :: "string option"
  cache_expiry :: real

text \<open>A connection is known by \<open>id(conn)\<close>.\<close>

type_synonym conn = nat

record core_state =
  connection_pool :: "conn list"
  connection_times :: "conn \<rightharpoonup> real"
  closed_connections :: "conn set"
  command_cache :: "string \<rightharpoonup> json \<times> real"

text \<open>
  What one iteration of the retry loop meets on the network: the clock, the liveness
  probe \<open>conn.send(b'')\<close> of a pooled connection, the outcome of \<open>_create_connection\<close>, an
  exception raised while the request is built and sent (if any), and the successive
  results of \<open>conn.recv(8192)\<close>; past the end of the list \<open>recv\<close> returns \<open>b''\<close>.
\<close>

record attempt_env =
  now_get :: real
  probe_ok :: "conn \<Rightarrow> bool"
  create_result :: "exc + conn"
  send_result :: "exc option"
  recv_chunks :: "(exc + string) list"
  now_return :: real

subsection \<open>The connection pool\<close>

definition pool_full :: "core_config \<Rightarrow> core_state \<Rightarrow> bool" where
  "pool_full cfg st =
     (0 < pool_maxsize cfg \<and> pool_maxsize cfg \<le> int (length (connection_pool st)))"

definition conn_time :: "core_state \<Rightarrow> conn \<Rightarrow> real" where
  "conn_time st c = (case connection_times st c of Some t \<Rightarrow> t | None \<Rightarrow> 0)"

text \<open>
  \<open>_get_connection\<close>: the pool is drained, the connections that are young enough and pass
  the probe go back in (as far as the pool takes them), and the first of them is handed
  out; with none left, or with the pool disabled, a new connection is created.
\<close>

definition get_connection :: "core_config \<Rightarrow> attempt_env \<Rightarrow> core_state \<Rightarrow> (exc + conn) \<times> core_state" where
  "get_connection cfg env st =
     (if \<not> enable_connection_pool cfg then (create_result env, st)
      else
        (let valid = filter (\<lambda>c. now_get env - conn_time st c < connection_expiry cfg
                                  \<and> probe_ok env c) (connection_pool st);
             kept = (if 0 < pool_maxsize cfg then take (nat (pool_maxsize cfg)) valid else valid)
         in case kept of
              c # rest \<Rightarrow>
                (Inr c, st\<lparr>connection_pool := rest,
                           connection_times := (connection_times st)(c \<mapsto> now_get env)\<rparr>)
            | [] \<Rightarrow> (create_result env, st\<lparr>connection_pool := []\<rparr>)))"

definition return_connection :: "core_config \<Rightarrow> attempt_env \<Rightarrow> conn \<Rightarrow> core_state \<Rightarrow> bool \<times> core_state" where
  "return_connection cfg env c st =
     (if enable_connection_pool cfg \<and> \<not> pool_full cfg st
      then (True, st\<lparr>connection_pool := connection_pool st @ [c],
                      connection_times := (connection_times st)(c \<mapsto> now_return env)\<rparr>)
      else (False, st\<lparr>closed_connections := insert c (closed_connections st)\<rparr>))"

subsection \<open>Compression and framing\<close>

definition compressed_marker :: string where
  "compressed_marker = ''COMPRESSED:''"

definition compress_data :: "core_config \<Rightarrow> library \<Rightarrow> string \<Rightarrow> string" where
  "compress_data cfg lib data =
     (if \<not> enable_compression cfg then data
      else (let compressed = gzip_compress lib data
            in if length compressed < length data then compressed else data))"

definition decompress_data :: "core_config \<Rightarrow> library \<Rightarrow> string \<Rightarrow> string" where
  "decompress_data cfg lib data =
     (if \<not> enable_compression cfg then data
      else (case gzip_decompress lib data of Some d \<Rightarrow> d | None \<Rightarrow> data))"

text \<open>The bytes written for a serialized request, before the newline.\<close>

definition frame_request :: "core_config \<Rightarrow> library \<Rightarrow> string \<Rightarrow> string" where
  "frame_request cfg lib request_data =
     (if enable_compression cfg
      then (let compressed_data = compress_data cfg lib request_data
            in if length compressed_data < length request_data
               then compressed_marker @ compressed_data else request_data)
      else request_data)"

text \<open>The receive loop: read until \<open>recv\<close> returns nothing or a newline has been seen.\<close>

fun recv_loop :: "(exc + string) list \<Rightarrow> string \<Rightarrow> exc + string" where
  "recv_loop [] response_data = Inr response_data"
| "recv_loop (Inl e # rest) response_data = Inl e"
| "recv_loop (Inr chunk # rest) response_data =
     (if chunk = [] then Inr response_data
      else if CHR 0x0A \<in> set (response_data @ chunk) then Inr (response_data @ chunk)
      else recv_loop rest (response_data @ chunk))"

text \<open>
  \<open>if response_data.startswith(b'COMPRESSED:'): response_data =
  self._decompress_data(response_data[10:])\<close>.
\<close>

definition unwrap_response :: "core_config \<Rightarrow> library \<Rightarrow> string \<Rightarrow> string" where
  "unwrap_response cfg lib response_data =
     (if startswith response_data compressed_marker
      then decompress_data cfg lib (drop 10 response_data)
      else response_data)"

subsection \<open>Reading a parsed response\<close>

definition type_error :: "string \<Rightarrow> exc" where
  "type_error m = OtherException m"

text \<open>\<open>key in v\<close> for a string key.\<close>

fun py_in :: "string \<Rightarrow> json \<Rightarrow> exc + bool" where
  "py_in k (JDict kvs) = Inr (k \<in> set (map fst kvs))"
| "py_in k (JList xs) = Inr (JStr k \<in> set xs)"
| "py_in k (JStr s) = Inr (contains k s)"
| "py_in k v = Inl (type_error (''argument of type '' @ [CHR 0x27] @ type_name v @ [CHR 0x27]
                                @ '' is not iterable''))"

text \<open>\<open>v[key]\<close> for a string key.\<close>

fun py_getitem :: "json \<Rightarrow> string \<Rightarrow> exc + json" where
  "py_getitem (JDict kvs) k =
     (case map_of kvs k of Some v \<Rightarrow> Inr v | None \<Rightarrow> Inl (key_error k))"
| "py_getitem (JList xs) k = Inl (type_error ''list indices must be integers or slices, not str'')"
| "py_getitem (JStr s) k = Inl (type_error ''string indices must be integers'')"
| "py_getitem v k = Inl (type_error ([CHR 0x27] @ type_name v @ [CHR 0x27]
                                     @ '' object is not subscriptable''))"

text \<open>\<open>v[0]\<close>.\<close>

fun py_first :: "json \<Rightarrow> exc + json" where
  "py_first (JList xs) =
     (case xs of [] \<Rightarrow> Inl (OtherException ''list index out of range'') | x # rest \<Rightarrow> Inr x)"
| "py_first (JStr s) =
     (case s of [] \<Rightarrow> Inl (OtherException ''string index out of range'') | c # rest \<Rightarrow> Inr (JStr [c]))"
| "py_first (JDict kvs) = Inl (OtherException ''0'')"
| "py_first v = Inl (type_error ([CHR 0x27] @ type_name v @ [CHR 0x27]
                                 @ '' object is not subscriptable''))"

text \<open>
  \<open>error_msg = response['error'].get('message', str(response['error']))\<close>, followed by
  \<open>error_msg.lower()\<close>: the error must be a dictionary and the message a string.
\<close>

definition error_message :: "library \<Rightarrow> json \<Rightarrow> exc + string" where
  "error_message lib err =
     (case err of
        JDict kvs \<Rightarrow>
          (case (case map_of kvs ''message'' of Some v \<Rightarrow> v | None \<Rightarrow> JStr (py_str lib err)) of
             JStr m \<Rightarrow> Inr m
           | v \<Rightarrow> Inl (attribute_error v ''lower''))
      | v \<Rightarrow> Inl (attribute_error v ''get''))"

definition auth_flavoured :: "string \<Rightarrow> bool" where
  "auth_flavoured error_msg =
     (contains ''auth'' (lower error_msg) \<or> contains ''password'' (lower error_msg)
      \<or> contains ''login'' (lower error_msg))"

text \<open>The UTF-8 bytes of the message literals of \<open>_call\<close>.\<close>

definition auth_failed :: string where
  "auth_failed =
     [CHR 0xE8, CHR 0xAE, CHR 0xA4, CHR 0xE8, CHR 0xAF, CHR 0x81,
      CHR 0xE5, CHR 0xA4, CHR 0xB1, CHR 0xE8, CHR 0xB4, CHR 0xA5]"

definition check_credentials_hint :: string where
  "check_credentials_hint =
     ''. '' @
     [CHR 0xE8, CHR 0xAF, CHR 0xB7, CHR 0xE6, CHR 0xA3, CHR 0x80, CHR 0xE6, CHR 0x9F, CHR 0xA5,
      CHR 0xE7, CHR 0x94, CHR 0xA8, CHR 0xE6, CHR 0x88, CHR 0xB7, CHR 0xE5, CHR 0x90, CHR 0x8D,
      CHR 0xE5, CHR 0x92, CHR 0x8C, CHR 0xE5, CHR 0xAF, CHR 0x86, CHR 0xE7, CHR 0xA0, CHR 0x81,
      CHR 0xE6, CHR 0x98, CHR 0xAF, CHR 0xE5, CHR 0x90, CHR 0xA6, CHR 0xE6, CHR 0xAD, CHR 0xA3,
      CHR 0xE7, CHR 0xA1, CHR 0xAE, CHR 0xE3, CHR 0x80, CHR 0x82]"

definition server_error_prefix :: string where
  "server_error_prefix =
     [CHR 0xE6, CHR 0x9C, CHR 0x8D, CHR 0xE5, CHR 0x8A, CHR 0xA1, CHR 0xE5, CHR 0x99, CHR 0xA8,
      CHR 0xE9, CHR 0x94, CHR 0x99, CHR 0xE8, CHR 0xAF, CHR 0xAF] @ '': ''"

definition connect_failed_prefix :: string where
  "connect_failed_prefix =
     [CHR 0xE8, CHR 0xBF, CHR 0x9E, CHR 0xE6, CHR 0x8E, CHR 0xA5,
      CHR 0xE5, CHR 0xA4, CHR 0xB1, CHR 0xE8, CHR 0xB4, CHR 0xA5] @ '': ''"

definition causes_with_auth :: string where
  "causes_with_auth =
     ''. '' @
     [CHR 0xE5, CHR 0x8F, CHR 0xAF, CHR 0xE8, CHR 0x83, CHR 0xBD, CHR 0xE7, CHR 0x9A, CHR 0x84,
      CHR 0xE5, CHR 0x8E, CHR 0x9F, CHR 0xE5, CHR 0x9B, CHR 0xA0] @ '': '' @
     [CHR 0xE6, CHR 0x9C, CHR 0x8D, CHR 0xE5, CHR 0x8A, CHR 0xA1, CHR 0xE5, CHR 0x99, CHR 0xA8,
      CHR 0xE6, CHR 0x9C, CHR 0xAA, CHR 0xE8, CHR 0xBF, CHR 0x90, CHR 0xE8, CHR 0xA1, CHR 0x8C,
      CHR 0xE3, CHR 0x80, CHR 0x81, CHR 0xE7, CHR 0xAB, CHR 0xAF, CHR 0xE5, CHR 0x8F, CHR 0xA3,
      CHR 0xE9, CHR 0x94, CHR 0x99, CHR 0xE8, CHR 0xAF, CHR 0xAF, CHR 0xE6, CHR 0x88, CHR 0x96]
     @ auth_failed @ [CHR 0xE3, CHR 0x80, CHR 0x82]"

definition causes_without_auth :: string where
  "causes_without_auth =
     ''. '' @
     [CHR 0xE5, CHR 0x8F, CHR 0xAF, CHR 0xE8, CHR 0x83, CHR 0xBD, CHR 0xE7, CHR 0x9A, CHR 0x84,
      CHR 0xE5, CHR 0x8E, CHR 0x9F, CHR 0xE5, CHR 0x9B, CHR 0xA0] @ '': '' @
     [CHR 0xE6, CHR 0x9C, CHR 0x8D, CHR 0xE5, CHR 0x8A, CHR 0xA1, CHR 0xE5, CHR 0x99, CHR 0xA8,
      CHR 0xE6, CHR 0x9C, CHR 0xAA, CHR 0xE8, CHR 0xBF, CHR 0x90, CHR 0xE8, CHR 0xA1, CHR 0x8C,
      CHR 0xE6, CHR 0x88, CHR 0x96, CHR 0xE7, CHR 0xAB, CHR 0xAF, CHR 0xE5, CHR 0x8F, CHR 0xA3,
      CHR 0xE9, CHR 0x94, CHR 0x99, CHR 0xE8, CHR 0xAF, CHR 0xAF, CHR 0xE3, CHR 0x80, CHR 0x82]"

definition auth_error :: "string \<Rightarrow> exc" where
  "auth_error error_msg =
     OtherException (auth_failed @ '': '' @ error_msg @ check_credentials_hint)"

definition server_error :: "string \<Rightarrow> exc" where
  "server_error error_msg = OtherException (server_error_prefix @ error_msg)"

text \<open>
  The part of the \<open>try\<close> block after \<open>json.loads\<close>: an \<open>error\<close> member raises, as an
  authentication failure or as a server error; a response without one is returned.
\<close>

definition check_response :: "library \<Rightarrow> json \<Rightarrow> exc + json" where
  "check_response lib response =
     (case py_in ''error'' response of
        Inl e \<Rightarrow> Inl e
      | Inr False \<Rightarrow> Inr response
      | Inr True \<Rightarrow>
          (case py_getitem response ''error'' of
             Inl e \<Rightarrow> Inl e
           | Inr err \<Rightarrow>
               (case error_message lib err of
                  Inl e \<Rightarrow> Inl e
                | Inr error_msg \<Rightarrow>
                    (if auth_flavoured error_msg then Inl (auth_error error_msg)
                     else Inl (server_error error_msg)))))"

subsection \<open>One attempt\<close>

text \<open>
  What the \<open>try\<close> block of one iteration comes to, before any retry decision: a checked
  response, the empty response, or an exception.
\<close>

datatype try_result = TryReturn json | TryEmpty | TryRaise exc

definition try_body :: "core_config \<Rightarrow> library \<Rightarrow> attempt_env \<Rightarrow> try_result" where
  "try_body cfg lib env =
     (case send_result env of
        Some e \<Rightarrow> TryRaise e
      | None \<Rightarrow>
          (case recv_loop (recv_chunks env) [] of
             Inl e \<Rightarrow> TryRaise e
           | Inr received \<Rightarrow>
               (let response_data = unwrap_response cfg lib received in
                if response_data = [] then TryEmpty
                else (case json_loads lib response_data of
                        Inl e \<Rightarrow> TryRaise e
                      | Inr response \<Rightarrow>
                          (case check_response lib response of
                             Inl e \<Rightarrow> TryRaise e
                           | Inr r \<Rightarrow> TryReturn r)))))"

text \<open>The two local variables of the retry loop.\<close>

record loop_vars =
  retry_count :: nat
  current_delay :: real

datatype step = Return json | Raise exc | Continue

definition may_retry :: "bool \<Rightarrow> int \<Rightarrow> loop_vars \<Rightarrow> bool" where
  "may_retry retry_on_failure max_retries v =
     (retry_on_failure \<and> int (retry_count v) < max_retries)"

text \<open>The new delay, computed after \<open>retry_count\<close> has been incremented.\<close>

definition backoff :: "core_config \<Rightarrow> nat \<Rightarrow> real \<Rightarrow> real" where
  "backoff cfg rc delay =
     (if enable_exponential_backoff cfg
      then min (delay * 2 ^ rc) (max_retry_delay cfg * 2)
      else min (delay * 1.5) (max_retry_delay cfg))"

text \<open>\<open>time.sleep\<close> raises \<open>ValueError\<close> on a negative argument.\<close>

definition sleep_error :: exc where
  "sleep_error = OtherException ''sleep length must be non-negative''"

text \<open>
  \<open>retry_count += 1\<close>, the new \<open>current_delay\<close>, \<open>time.sleep(current_delay)\<close>: the
  exception of the sleep, if it raises, and the updated variables.
\<close>

definition retry_sleep :: "core_config \<Rightarrow> loop_vars \<Rightarrow> exc option \<times> loop_vars" where
  "retry_sleep cfg v =
     (let rc = Suc (retry_count v);
          delay = backoff cfg rc (current_delay v)
      in (if delay < 0 then Some sleep_error else None,
          \<lparr>retry_count = rc, current_delay = delay\<rparr>))"

text \<open>
  Inside an \<open>except\<close> clause: retry, sleep and \<open>continue\<close>; an exception of the sleep
  leaves \<open>_call\<close>.
\<close>

definition retry_in_handler :: "core_config \<Rightarrow> loop_vars \<Rightarrow> step \<times> loop_vars \<times> real list" where
  "retry_in_handler cfg v =
     (case retry_sleep cfg v of
        (Some e, v') \<Rightarrow> (Raise e, v', [])
      | (None, v') \<Rightarrow> (Continue, v', [current_delay v']))"

text \<open>The three \<open>except\<close> clauses, chosen by the class of the exception.\<close>

definition handler ::
  "core_config \<Rightarrow> bool \<Rightarrow> int \<Rightarrow> exc \<Rightarrow> loop_vars \<Rightarrow> step \<times> loop_vars \<times> real list" where
  "handler cfg retry_on_failure max_retries e v =
     (case e of
        SocketError error_msg \<Rightarrow>
          (if contains ''Connection refused'' error_msg \<or> contains ''10061'' error_msg
           then (Raise (OtherException (connect_failed_prefix @ error_msg @
                          (if password cfg \<noteq> None then causes_with_auth
                           else causes_without_auth))), v, [])
           else if may_retry retry_on_failure max_retries v then retry_in_handler cfg v
           else (Raise e, v, []))
      | JSONDecodeError m \<Rightarrow>
          (if may_retry retry_on_failure max_retries v then retry_in_handler cfg v
           else (Raise e, v, []))
      | OtherException m \<Rightarrow>
          (if may_retry retry_on_failure max_retries v
           then (if contains auth_failed m then (Raise e, v, [])
                 else retry_in_handler cfg v)
           else (Raise e, v, [])))"

text \<open>
  The branch \<open>if not response_data\<close> of the \<open>try\<close> block: what it raises (the exception
  of the sleep, or \<open>Exception("Empty response from server")\<close>) is caught by the last
  \<open>except\<close> clause.
\<close>

definition empty_response :: exc where
  "empty_response = OtherException ''Empty response from server''"

definition on_empty ::
  "core_config \<Rightarrow> bool \<Rightarrow> int \<Rightarrow> loop_vars \<Rightarrow> step \<times> loop_vars \<times> real list" where
  "on_empty cfg retry_on_failure max_retries v =
     (if may_retry retry_on_failure max_retries v
      then (case retry_sleep cfg v of
              (Some e, v') \<Rightarrow> handler cfg retry_on_failure max_retries e v'
            | (None, v') \<Rightarrow> (Continue, v', [current_delay v']))
      else handler cfg retry_on_failure max_retries empty_response v)"

text \<open>
  One iteration of the \<open>while\<close> loop. The \<open>finally\<close> clause hands the connection to
  \<open>_return_connection\<close> whenever one was acquired.
\<close>

definition attempt ::
  "core_config \<Rightarrow> library \<Rightarrow> attempt_env \<Rightarrow> bool \<Rightarrow> int \<Rightarrow> loop_vars \<Rightarrow> core_state
     \<Rightarrow> (step \<times> loop_vars \<times> real list) \<times> core_state" where
  "attempt cfg lib env retry_on_failure max_retries v st =
     (case get_connection cfg env st of
        (Inl e, st1) \<Rightarrow> (handler cfg retry_on_failure max_retries e v, st1)
      | (Inr c, st1) \<Rightarrow>
          ((case try_body cfg lib env of
              TryReturn r \<Rightarrow> (Return r, v, [])
            | TryEmpty \<Rightarrow> on_empty cfg retry_on_failure max_retries v
            | TryRaise e \<Rightarrow> handler cfg retry_on_failure max_retries e v),
           snd (return_connection cfg env c st1)))"

lemma retry_in_handler_Continue:
  "retry_in_handler cfg v = (Continue, v', sl) \<Longrightarrow> retry_count v' = Suc (retry_count v)"
  by (auto simp: retry_in_handler_def retry_sleep_def Let_def split: if_splits)

lemma handler_Continue:
  "handler cfg retry_on_failure max_retries e v = (Continue, v', sl)
     \<Longrightarrow> retry_count v' = Suc (retry_count v) \<and> int (retry_count v) < max_retries"
  by (auto simp: handler_def may_retry_def split: exc.splits if_splits
      dest: retry_in_handler_Continue)

lemma on_empty_Continue:
  "on_empty cfg retry_on_failure max_retries v = (Continue, v', sl)
     \<Longrightarrow> retry_count v < retry_count v' \<and> int (retry_count v') \<le> max_retries"
  by (auto simp: on_empty_def may_retry_def retry_sleep_def Let_def empty_response_def
      split: if_splits dest!: handler_Continue)

lemma attempt_Continue:
  "attempt cfg lib env retry_on_failure max_retries v st = ((Continue, v', sl), st')
     \<Longrightarrow> retry_count v < retry_count v' \<and> int (retry_count v') \<le> max_retries"
  by (auto simp: attempt_def split: prod.splits sum.splits try_result.splits
      dest!: handler_Continue on_empty_Continue)

subsection \<open>The retry loop\<close>

datatype call_outcome = Returned json | Raised exc | ReturnedNone

record call_result =
  outcome :: call_outcome
  final_state :: core_state
  sleeps :: "real list"
  attempts :: nat

text \<open>
  \<open>while retry_count <= max_retries\<close>. The environment of the \<open>n\<close>-th iteration is
  \<open>envs n\<close>; the result records the delays slept and the number of iterations. A loop that
  is never entered falls off the end of \<open>_call\<close>, which then returns \<open>None\<close>.
\<close>

function call_loop ::
  "core_config \<Rightarrow> library \<Rightarrow> (nat \<Rightarrow> attempt_env) \<Rightarrow> bool \<Rightarrow> int \<Rightarrow> loop_vars
     \<Rightarrow> core_state \<Rightarrow> real list \<Rightarrow> nat \<Rightarrow> call_result" where
  "call_loop cfg lib envs retry_on_failure max_retries v st slept n =
     (if int (retry_count v) \<le> max_retries
      then (case attempt cfg lib (envs n) retry_on_failure max_retries v st of
              ((Return r, v', sl), st') \<Rightarrow>
                \<lparr>outcome = Returned r, final_state = st', sleeps = slept @ sl,
                 attempts = Suc n\<rparr>
            | ((Raise e, v', sl), st') \<Rightarrow>
                \<lparr>outcome = Raised e, final_state = st', sleeps = slept @ sl,
                 attempts = Suc n\<rparr>
            | ((Continue, v', sl), st') \<Rightarrow>
                call_loop cfg lib envs retry_on_failure max_retries v' st' (slept @ sl) (Suc n))
      else \<lparr>outcome = ReturnedNone, final_state = st, sleeps = slept, attempts = n\<rparr>)"
  by pat_completeness auto
termination
proof (relation "measure (\<lambda>(cfg, lib, envs, retry_on_failure, max_retries, v, st, slept, n).
                    nat (max_retries + 1 - int (retry_count v)))")
  show "wf (measure (\<lambda>(cfg, lib, envs, retry_on_failure, max_retries, v, st, slept, n).
                    nat (max_retries + 1 - int (retry_count v))))"
    by simp
next
  fix cfg :: core_config and lib :: library and envs :: "nat \<Rightarrow> attempt_env"
    and retry_on_failure :: bool and max_retries :: int and v :: loop_vars
    and st :: core_state and slept :: "real list" and n :: nat
    and x st' y z v' sl
  assume "int (retry_count v) \<le> max_retries"
    and "(x, st') = attempt cfg lib (envs n) retry_on_failure max_retries v st"
    and "(y, z) = x" and "(v', sl) = z" and "y = Continue"
  then have "attempt cfg lib (envs n) retry_on_failure max_retries v st = ((Continue, v', sl), st')"
    by simp
  from attempt_Continue [OF this]
  show "((cfg, lib, envs, retry_on_failure, max_retries, v', st', slept @ sl, Suc n),
         (cfg, lib, envs, retry_on_failure, max_retries, v, st, slept, n))
        \<in> measure (\<lambda>(cfg, lib, envs, retry_on_failure, max_retries, v, st, slept, n).
                    nat (max_retries + 1 - int (retry_count v)))"
    by simp
qed

declare call_loop.simps [simp del]

definition call ::
  "core_config \<Rightarrow> library \<Rightarrow> (nat \<Rightarrow> attempt_env) \<Rightarrow> bool \<Rightarrow> int \<Rightarrow> core_state \<Rightarrow> call_result" where
  "call cfg lib envs retry_on_failure max_retries st =
     call_loop cfg lib envs retry_on_failure max_retries
       \<lparr>retry_count = 0, current_delay = retry_delay cfg\<rparr> st [] 0"

subsection \<open>Notions used to state the properties of \<open>_call\<close>\<close>

text \<open>The document that an attempt decodes, when it gets as far as decoding one.\<close>

definition response_of :: "core_config \<Rightarrow> library \<Rightarrow> attempt_env \<Rightarrow> json option" where
  "response_of cfg lib env =
     (case send_result env of
        Some e \<Rightarrow> None
      | None \<Rightarrow>
          (case recv_loop (recv_chunks env) [] of
             Inl e \<Rightarrow> None
           | Inr received \<Rightarrow>
               (if unwrap_response cfg lib received = [] then None
                else (case json_loads lib (unwrap_response cfg lib received) of
                        Inl e \<Rightarrow> None
                      | Inr response \<Rightarrow> Some response))))"

text \<open>
  The exceptions that the \<open>except\<close> clauses of \<open>_call\<close> retry while the budget lasts, read
  off the clauses themselves: a socket error other than a refused connection, a JSON
  decoding error, and any other exception whose text lacks the authentication marker.
  \<open>retried_failure\<close> is an attempt that fails with one of them or with the empty
  response.
\<close>

definition retried_by_handler :: "exc \<Rightarrow> bool" where
  "retried_by_handler e =
     (case e of
        SocketError m \<Rightarrow> \<not> contains ''Connection refused'' m \<and> \<not> contains ''10061'' m
      | JSONDecodeError m \<Rightarrow> True
      | OtherException m \<Rightarrow> \<not> contains auth_failed m)"

definition retried_failure :: "core_config \<Rightarrow> library \<Rightarrow> attempt_env \<Rightarrow> core_state \<Rightarrow> bool" where
  "retried_failure cfg lib env st =
     (case get_connection cfg env st of
        (Inl e, st1) \<Rightarrow> retried_by_handler e
      | (Inr c, st1) \<Rightarrow>
          (case try_body cfg lib env of
             TryReturn r \<Rightarrow> False
           | TryEmpty \<Rightarrow> True
           | TryRaise e \<Rightarrow> retried_by_handler e))"



text \<open>The delays of \<open>k\<close> successive retries, from retry count \<open>rc\<close> and delay \<open>d\<close>.\<close>

fun delays :: "core_config \<Rightarrow> nat \<Rightarrow> real \<Rightarrow> nat \<Rightarrow> real list" where
  "delays cfg rc d 0 = []"
| "delays cfg rc d (Suc k) =
     backoff cfg (Suc rc) d # delays cfg (Suc rc) (backoff cfg (Suc rc) d) k"

subsection \<open>Sample inputs of \<open>_call\<close>\<close>

text \<open>The constructor's defaults, with a password.\<close>

definition default_config :: core_config where
  "default_config =
     \<lparr>enable_compression = True, enable_connection_pool = True, pool_maxsize = 5,
      connection_expiry = 300, retry_delay = 0.5, max_retry_delay = 5,
      enable_exponential_backoff = False, password = Some ''secret'', cache_expiry = 60\<rparr>"

definition initial_state :: core_state where
  "initial_state =
     \<lparr>connection_pool = [], connection_times = Map.empty, closed_connections = {},
      command_cache = Map.empty\<rparr>"

text \<open>
  An attempt on a new connection whose peer sends the given bytes in one chunk; with no
  bytes, the first \<open>recv\<close> returns \<open>b''\<close>.
\<close>

definition reply_env :: "conn \<Rightarrow> string \<Rightarrow> attempt_env" where
  "reply_env c received =
     \<lparr>now_get = 100, probe_ok = (\<lambda>c. True), create_result = Inr c, send_result = None,
      recv_chunks = (if received = [] then [] else [Inr received]), now_return = 101\<rparr>"

definition backoff_config :: core_config where
  "backoff_config = default_config\<lparr>enable_exponential_backoff := True\<rparr>"




section \<open>Command execution with the result cache (\<open>RcoderCore.execute\<close>)\<close>

text \<open>
  \<open>execute\<close> is modelled for calls with \<open>wait_for_restart=False\<close>, the default and what
  \<open>execute_async\<close>, \<open>execute_batch\<close> and \<open>RemoteHost.run_async\<close> pass: the branch that
  waits for a restart is not taken then, whatever the command. The request parameters
  (\<open>server\<close>, \<open>command\<close>, \<open>timeout\<close>) reach the network only inside the request, so they
  enter the model through the cache key and the environment of \<open>_call\<close>.
\<close>

definition cache_key :: "string \<Rightarrow> string \<Rightarrow> string" where
  "cache_key server command = ''execute:'' @ server @ '':'' @ command"

text \<open>The cache test at the head of \<open>execute\<close>; an expired entry is left in place.\<close>

definition cache_lookup :: "core_config \<Rightarrow> real \<Rightarrow> string \<Rightarrow> core_state \<Rightarrow> json option" where
  "cache_lookup cfg now k st =
     (case command_cache st k of
        None \<Rightarrow> None
      | Some (res, stamp) \<Rightarrow> if now - stamp < cache_expiry cfg then Some res else None)"

definition cache_store :: "real \<Rightarrow> string \<Rightarrow> json \<Rightarrow> core_state \<Rightarrow> core_state" where
  "cache_store now k res st = st\<lparr>command_cache := (command_cache st)(k \<mapsto> (res, now))\<rparr>"

text \<open>Truth value of a document, for Python's \<open>or\<close>.\<close>

fun truthy :: "json \<Rightarrow> bool" where
  "truthy JNull = False"
| "truthy (JBool b) = b"
| "truthy (JInt i) = (i \<noteq> 0)"
| "truthy (JFloat x) = (x \<noteq> 0)"
| "truthy (JStr s) = (s \<noteq> [])"
| "truthy (JList xs) = (xs \<noteq> [])"
| "truthy (JDict kvs) = (kvs \<noteq> [])"

text \<open>\<open>data.get(key, "")\<close>.\<close>

definition dict_get :: "json \<Rightarrow> string \<Rightarrow> exc + json" where
  "dict_get v k =
     (case v of
        JDict kvs \<Rightarrow> Inr (case map_of kvs k of Some x \<Rightarrow> x | None \<Rightarrow> JStr [])
      | _ \<Rightarrow> Inl (attribute_error v ''get''))"

text \<open>\<open>json.loads\<close> of a value that need not be a string.\<close>

definition loads_value :: "library \<Rightarrow> json \<Rightarrow> exc + json" where
  "loads_value lib v =
     (case v of
        JStr s \<Rightarrow> json_loads lib s
      | _ \<Rightarrow> Inl (type_error (''the JSON object must be str, bytes or bytearray, not ''
                              @ type_name v)))"

definition bind_exc :: "exc + 'a \<Rightarrow> ('a \<Rightarrow> exc + 'b) \<Rightarrow> exc + 'b" where
  "bind_exc x f = (case x of Inl e \<Rightarrow> Inl e | Inr v \<Rightarrow> f v)"

text \<open>
  \<open>data = json.loads(result["result"]["content"][0]["text"])\<close> and
  \<open>output = data.get("stdout", "") or data.get("stderr", "") or data.get("error", "")\<close>.
\<close>

definition extract_output :: "library \<Rightarrow> json \<Rightarrow> exc + json" where
  "extract_output lib res =
     bind_exc (py_getitem res ''result'') (\<lambda>r.
     bind_exc (py_getitem r ''content'') (\<lambda>content.
     bind_exc (py_first content) (\<lambda>first.
     bind_exc (py_getitem first ''text'') (\<lambda>text.
     bind_exc (loads_value lib text) (\<lambda>data.
     bind_exc (dict_get data ''stdout'') (\<lambda>out.
       if truthy out then Inr out
       else bind_exc (dict_get data ''stderr'') (\<lambda>err.
         if truthy err then Inr err else dict_get data ''error'')))))))"

record execute_env =
  now_cache_check :: real
  call_envs :: "nat \<Rightarrow> attempt_env"
  now_cache_store :: real

record execute_result =
  returned :: "exc + json"
  state_after :: core_state
  network_attempts :: nat

text \<open>What \<open>result = self._call(...)\<close> binds, or the exception that passes through.\<close>

fun call_value :: "call_outcome \<Rightarrow> exc + json" where
  "call_value (Returned r) = Inr r"
| "call_value ReturnedNone = Inr JNull"
| "call_value (Raised e) = Inl e"

definition execute ::
  "core_config \<Rightarrow> library \<Rightarrow> execute_env \<Rightarrow> string \<Rightarrow> string \<Rightarrow> bool \<Rightarrow> core_state
     \<Rightarrow> execute_result" where
  "execute cfg lib env server command use_cache st =
     (case (if use_cache
            then cache_lookup cfg (now_cache_check env) (cache_key server command) st
            else None) of
        Some cached \<Rightarrow> \<lparr>returned = Inr cached, state_after = st, network_attempts = 0\<rparr>
      | None \<Rightarrow>
          (let r = call cfg lib (call_envs env) True 3 st;
               st1 = final_state r;
               finish = (\<lambda>v. \<lparr>returned = Inr v,
                               state_after = (if use_cache
                                              then cache_store (now_cache_store env)
                                                     (cache_key server command) v st1
                                              else st1),
                               network_attempts = attempts r\<rparr>);
               raise = (\<lambda>e. \<lparr>returned = Inl e, state_after = st1,
                              network_attempts = attempts r\<rparr>)
           in case call_value (outcome r) of
                Inl e \<Rightarrow> raise e
              | Inr res \<Rightarrow>
                  (case py_in ''result'' res of
                     Inl e \<Rightarrow> raise e
                   | Inr True \<Rightarrow>
                       (case extract_output lib res of
                          Inl e \<Rightarrow> raise e
                        | Inr output \<Rightarrow> finish output)
                   | Inr False \<Rightarrow> finish (JStr (py_str lib res)))))"

subsection \<open>Sample inputs of \<open>execute\<close>\<close>

definition empty_read_env :: execute_env where
  "empty_read_env =
     \<lparr>now_cache_check = 99, call_envs = (\<lambda>n. reply_env 7 []), now_cache_store = 102\<rparr>"

text \<open>A peer that answers \<open>{}\<close>, and a later call against the same peer.\<close>

definition first_call_env :: execute_env where
  "first_call_env =
     \<lparr>now_cache_check = 99, call_envs = (\<lambda>n. reply_env 7 ''{}''), now_cache_store = 102\<rparr>"

definition second_call_env :: execute_env where
  "second_call_env =
     \<lparr>now_cache_check = 130, call_envs = (\<lambda>n. reply_env 8 ''{}''), now_cache_store = 131\<rparr>"


section \<open>Scenario detection (\<open>auto_optimizer.AutoOptimizer._detect_network_scenario\<close>)\<close>

text \<open>The scenario names that the function returns.\<close>

datatype scenario =
    unknown
  | local_network
  | low_bandwidth
  | very_low_bandwidth
  | high_latency
  | very_high_latency
  | unstable_network
  | very_unstable_network
  | proxy_transfer

text \<open>
  The dictionary of \<open>get_network_status()\<close>, as far as it is read: the formatted strings
  under \<open>bandwidth\<close> and \<open>latency\<close>, each absent while nothing has been measured. An
  entry of \<open>get_bandwidth_trend()\<close> is one measurement; its \<open>bandwidth\<close> key may be
  missing.
\<close>

record network_status =
  status_bandwidth :: "string option"
  status_latency :: "string option"

record trend_entry =
  entry_timestamp :: real
  entry_latency :: real
  entry_bandwidth :: "real option"

record feedback =
  current_status :: network_status
  bandwidth_trend :: "trend_entry list"

text \<open>
  \<open>s.split()[0]\<close>: the first run of characters that are not white space; \<open>None\<close> for
  \<open>IndexError\<close>.
\<close>

definition first_token :: "string \<Rightarrow> string option" where
  "first_token s =
     (case until_space (lstrip s) of
        [] \<Rightarrow> None
      | tok \<Rightarrow> Some tok)"

text \<open>
  \<open>float(status[key].split()[0])\<close> inside \<open>try ... except: pass\<close>: \<open>None\<close> when the key
  is missing or anything raises.
\<close>

definition status_number :: "library \<Rightarrow> string option \<Rightarrow> real option" where
  "status_number lib field =
     (case field of
        None \<Rightarrow> None
      | Some s \<Rightarrow> (case first_token s of None \<Rightarrow> None | Some tok \<Rightarrow> py_float lib tok))"

text \<open>
  The statistics of the bandwidth values. Python computes them in double precision; here
  they are exact, so an input whose deviation lies within rounding distance of a
  threshold, or whose squares underflow, can be classified differently by the code.
\<close>

definition mean :: "real list \<Rightarrow> real" where
  "mean bandwidths = sum_list bandwidths / real (length bandwidths)"

definition variance :: "real list \<Rightarrow> real" where
  "variance bandwidths =
     sum_list (map (\<lambda>b. (b - mean bandwidths) ^ 2) bandwidths) / real (length bandwidths)"

definition std_dev :: "real list \<Rightarrow> real" where
  "std_dev bandwidths = sqrt (variance bandwidths)"

text \<open>\<open>bandwidth_trend[-5:]\<close> and the values of the entries that have a \<open>bandwidth\<close>.\<close>

definition last_bandwidths :: "trend_entry list \<Rightarrow> real list" where
  "last_bandwidths trend =
     concat (map (\<lambda>entry. case entry_bandwidth entry of None \<Rightarrow> [] | Some b \<Rightarrow> [b])
               (drop (length trend - 5) trend))"

text \<open>The three checks, each of which may overwrite the scenario of the one before.\<close>

definition check_bandwidth :: "library \<Rightarrow> network_status \<Rightarrow> scenario \<Rightarrow> scenario" where
  "check_bandwidth lib ns sc =
     (case status_number lib (status_bandwidth ns) of
        None \<Rightarrow> sc
      | Some bandwidth \<Rightarrow>
          if bandwidth < 0.5 then low_bandwidth
          else if bandwidth < 0.2 then very_low_bandwidth
          else sc)"

definition check_latency :: "library \<Rightarrow> network_status \<Rightarrow> scenario \<Rightarrow> scenario" where
  "check_latency lib ns sc =
     (case status_number lib (status_latency ns) of
        None \<Rightarrow> sc
      | Some latency \<Rightarrow>
          if latency > 500 then high_latency
          else if latency > 1000 then very_high_latency
          else sc)"

definition check_stability :: "trend_entry list \<Rightarrow> scenario \<Rightarrow> scenario" where
  "check_stability trend sc =
     (if length trend \<ge> 5
      then (let bandwidths = last_bandwidths trend in
            if length bandwidths \<ge> 3
            then (if std_dev bandwidths > mean bandwidths * 0.3 then unstable_network
                  else if std_dev bandwidths > mean bandwidths * 0.5 then very_unstable_network
                  else sc)
            else sc)
      else sc)"

type_synonym scenario_record = "real \<times> scenario \<times> network_status"

text \<open>
  \<open>_detect_network_scenario\<close>: \<open>fb\<close> is \<open>self._feedback\<close>, \<open>proxy\<close> tells whether
  \<open>self._remote_host\<close> is set, has an \<open>rcoder\<close> and that one has a \<open>proxy_server\<close>. The
  scenario is appended to \<open>self._scenario_history\<close>, which keeps fifty records.
\<close>

definition detect_network_scenario ::
  "library \<Rightarrow> feedback option \<Rightarrow> bool \<Rightarrow> real \<Rightarrow> scenario_record list
     \<Rightarrow> scenario \<times> scenario_record list" where
  "detect_network_scenario lib fb proxy now history =
     (case fb of
        None \<Rightarrow> (unknown, history)
      | Some f \<Rightarrow>
          (let sc1 = check_bandwidth lib (current_status f) local_network;
               sc2 = check_latency lib (current_status f) sc1;
               sc3 = check_stability (bandwidth_trend f) sc2;
               sc = (if proxy then proxy_transfer else sc3);
               history1 = history @ [(now, sc, current_status f)];
               history2 = (if length history1 > 50 then tl history1 else history1)
           in (sc, history2)))"

subsection \<open>Sample input of the scenario detection\<close>

text \<open>Five measurements with bandwidths 0.4, 0.1, 0.6, 0.05 and 0.5 MB/s.\<close>

definition sample_entry :: "real \<Rightarrow> trend_entry" where
  "sample_entry b = \<lparr>entry_timestamp = 0, entry_latency = 40, entry_bandwidth = Some b\<rparr>"

definition sample_values :: "real list" where
  "sample_values = [0.4, 0.1, 0.6, 0.05, 0.5]"

definition sample_feedback :: feedback where
  "sample_feedback =
     \<lparr>current_status = \<lparr>status_bandwidth = Some ''0.50 MB/s'', status_latency = Some ''40.00ms''\<rparr>,
      bandwidth_trend = map sample_entry sample_values\<rparr>"


section \<open>Properties of the message queue and its worker\<close>

lemma strip_braces: "strip ''{}'' = ''{}''"
  by (simp add: strip_def is_space_def is_space2_def)

text \<open>White space beyond ASCII is stripped and splits tokens, as in Python.\<close>

lemma strip_no_break_space:
  "strip ([CHR 0xC2, CHR 0xA0] @ ''{}'' @ [CHR 0xE2, CHR 0x80, CHR 0xA8, CHR 0x0A]) = ''{}''"
  by (simp add: strip_def is_space_def is_space2_def is_space3_def)

lemma first_token_no_break_space:
  "first_token (''  0.50'' @ [CHR 0xC2, CHR 0xA0] @ ''MB/s'') = Some ''0.50''"
  by (simp add: first_token_def is_space_def is_space2_def is_space3_def)

lemma first_token_blank: "first_token ''   '' = None"
  by (simp add: first_token_def is_space_def)


lemma first_index_SomeD:
  "first_index P xs = Some i \<Longrightarrow> i < length xs \<and> P (xs ! i) \<and> (\<forall>j<i. \<not> P (xs ! j))"
proof (induction xs arbitrary: i)
  case Nil
  then show ?case by simp
next
  case (Cons x xs)
  show ?case
  proof (cases "P x")
    case True
    with Cons.prems show ?thesis by simp
  next
    case False
    with Cons.prems obtain k where k: "first_index P xs = Some k" "i = Suc k"
      by auto
    from Cons.IH [OF k(1)] False k(2) show ?thesis
      by (auto simp: less_Suc_eq_0_disj)
  qed
qed

lemma first_index_None_iff: "first_index P xs = None \<longleftrightarrow> (\<forall>x\<in>set xs. \<not> P x)"
  by (induction xs) auto

lemma first_index_SomeI:
  "i < length xs \<Longrightarrow> P (xs ! i) \<Longrightarrow> (\<forall>j<i. \<not> P (xs ! j)) \<Longrightarrow> first_index P xs = Some i"
proof (induction xs arbitrary: i)
  case Nil
  then show ?case by simp
next
  case (Cons x xs)
  show ?case
  proof (cases i)
    case 0
    with Cons.prems show ?thesis by simp
  next
    case (Suc k)
    with Cons.prems have "\<not> P x" by auto
    moreover have "first_index P xs = Some k"
      using Cons.prems Suc by (intro Cons.IH) auto
    ultimately show ?thesis using Suc by simp
  qed
qed

lemma complete_length: "length (queue (snd (complete now iid res q))) = length (queue q)"
  by (simp add: complete_def Let_def split: option.splits)

lemma complete_status:
  assumes "j < length (queue q)"
  shows "item_status (queue (snd (complete now iid res q)) ! j) = item_status (queue q ! j)
   \<or> item_status (queue (snd (complete now iid res q)) ! j) = Completed"
proof (cases "first_index (\<lambda>item. item_id item = iid) (queue q)")
  case None
  then show ?thesis by (simp add: complete_def)
next
  case (Some i)
  show ?thesis
  proof (cases "j = i")
    case True
    with Some assms show ?thesis by (simp add: complete_def Let_def)
  next
    case False
    with Some assms show ?thesis by (simp add: complete_def Let_def)
  qed
qed

lemma dequeue_length: "length (queue (snd (dequeue now q))) = length (queue q)"
  by (simp add: dequeue_def Let_def split: option.splits)

lemma dequeue_status:
  assumes "j < length (queue q)"
  shows "item_status (queue (snd (dequeue now q)) ! j) = item_status (queue q ! j)
   \<or> item_status (queue (snd (dequeue now q)) ! j) = Processing"
proof (cases "first_index (eligible (processing q)) (queue q)")
  case None
  then show ?thesis by (simp add: dequeue_def)
next
  case (Some i)
  show ?thesis
  proof (cases "j = i")
    case True
    with Some assms show ?thesis by (simp add: dequeue_def Let_def)
  next
    case False
    with Some assms show ?thesis by (simp add: dequeue_def Let_def)
  qed
qed

lemma process_queue_step_length:
  "length (queue (process_queue_step lib env q)) = length (queue q)"
proof -
  obtain r q1 where d: "dequeue (now_dequeue env) q = (r, q1)" by (cases "dequeue (now_dequeue env) q")
  have l1: "length (queue q1) = length (queue q)" using dequeue_length [of "now_dequeue env" q] d by simp
  show ?thesis using d l1
    by (simp add: process_queue_step_def complete_length split: option.splits sum.splits)
qed

lemma process_queue_step_status:
  assumes "j < length (queue q)"
  shows "item_status (queue (process_queue_step lib env q) ! j) \<in>
           {item_status (queue q ! j), Processing, Completed}"
proof -
  obtain r q1 where d: "dequeue (now_dequeue env) q = (r, q1)" by (cases "dequeue (now_dequeue env) q")
  have l1: "length (queue q1) = length (queue q)" using dequeue_length [of "now_dequeue env" q] d by simp
  have s1: "item_status (queue q1 ! j) = item_status (queue q ! j) \<or> item_status (queue q1 ! j) = Processing"
    using dequeue_status [OF assms, of "now_dequeue env"] d by simp
  have j1: "j < length (queue q1)" using assms l1 by simp
  show ?thesis
  proof (cases r)
    case None
    with d s1 show ?thesis by (auto simp: process_queue_step_def)
  next
    case (Some item)
    show ?thesis
    proof (cases "item_proxy_command item")
      case None
      with d Some s1 show ?thesis by (auto simp: process_queue_step_def)
    next
      case (Some pc)
      show ?thesis
      proof (cases "execute_proxy_command lib env pc (item_id item) (item_callback item)")
        case (Inl e)
        with d \<open>r = Some item\<close> Some s1 show ?thesis by (auto simp: process_queue_step_def)
      next
        case (Inr res)
        have "item_status (queue (snd (complete (now_complete env) (item_id item) res q1)) ! j) = item_status (queue q1 ! j)
              \<or> item_status (queue (snd (complete (now_complete env) (item_id item) res q1)) ! j) = Completed"
          by (rule complete_status [OF j1])
        with d \<open>r = Some item\<close> Some Inr s1 show ?thesis by (auto simp: process_queue_step_def)
      qed
    qed
  qed
qed

lemma process_queue_length:
  "length (queue (process_queue lib envs q)) = length (queue q)"
  by (induction envs arbitrary: q) (simp_all add: process_queue_step_length)

lemma process_queue_never_fails:
  "j < length (queue q) \<Longrightarrow> item_status (queue (process_queue lib envs q) ! j) = Failed
     \<Longrightarrow> item_status (queue q ! j) = Failed"
proof (induction envs arbitrary: q)
  case Nil
  then show ?case by simp
next
  case (Cons env envs)
  have "j < length (queue (process_queue_step lib env q))"
    using Cons.prems(1) by (simp add: process_queue_step_length)
  then have "item_status (queue (process_queue_step lib env q) ! j) = Failed"
    using Cons.IH Cons.prems(2) by simp
  with process_queue_step_status [OF Cons.prems(1), of lib env] show ?case by auto
qed

lemma execute_proxy_command_quiet:
  assumes "\<forall>arg. run_callback cb arg = None"
  shows "execute_proxy_command lib env pc cid cb =
     Inr (case run_result env of
            Inl e \<Rightarrow> error_dict cid (exec_failed_prefix @ str_exc e) (now_exec_return env)
          | Inr r \<Rightarrow>
              (case json_loads lib (strip r) of
                 Inl e \<Rightarrow> error_dict cid (parse_failed_prefix @ str_exc e) (now_parse_return env)
               | Inr (JDict kvs) \<Rightarrow> JDict kvs
               | Inr v \<Rightarrow> error_dict cid (parse_failed_prefix @ str_exc (attribute_error v ''get''))
                            (now_parse_return env)))"
  using assms
  by (simp add: execute_proxy_command_def on_exec_error_def on_parse_error_def parse_feedback_def
      split: sum.splits json.splits)

lemma process_queue_step_completes:
  assumes fi: "first_index (eligible (processing q)) (queue q) = Some i"
    and uniq: "\<forall>j<i. item_id (queue q ! j) \<noteq> item_id (queue q ! i)"
    and pc: "item_proxy_command (queue q ! i) = Some pc"
    and ex: "execute_proxy_command lib env pc (item_id (queue q ! i)) (item_callback (queue q ! i))
               = Inr res"
  shows "process_queue_step lib env q =
           q\<lparr>queue := (queue q)[i := (queue q ! i)\<lparr>
                          item_processing_time := Some (now_dequeue env),
                          item_status := Completed,
                          item_result := Some res,
                          item_completion_time := Some (now_complete env)\<rparr>]\<rparr>"
proof -
  let ?item = "(queue q ! i)\<lparr>item_status := Processing,
                                item_processing_time := Some (now_dequeue env)\<rparr>"
  let ?q1 = "q\<lparr>queue := (queue q)[i := ?item],
                processing := insert (item_id (queue q ! i)) (processing q)\<rparr>"
  from first_index_SomeD [OF fi]
  have i: "i < length (queue q)" and el: "eligible (processing q) (queue q ! i)" by auto
  have d: "dequeue (now_dequeue env) q = (Some ?item, ?q1)"
    using fi by (simp add: dequeue_def Let_def)
  have "first_index (\<lambda>item. item_id item = item_id (queue q ! i)) (queue ?q1) = Some i"
  proof (rule first_index_SomeI)
    show "i < length (queue ?q1)" using i by simp
    show "item_id (queue ?q1 ! i) = item_id (queue q ! i)" using i by simp
    show "\<forall>j<i. item_id (queue ?q1 ! j) \<noteq> item_id (queue q ! i)"
      using uniq i by simp
  qed
  then have c: "snd (complete (now_complete env) (item_id (queue q ! i)) res ?q1) =
      ?q1\<lparr>queue := (queue ?q1)[i := (queue ?q1 ! i)\<lparr>item_status := Completed,
                 item_result := Some res, item_completion_time := Some (now_complete env)\<rparr>],
           processing := processing ?q1 - {item_id (queue q ! i)}\<rparr>"
    by (simp add: complete_def Let_def)
  have p: "insert (item_id (queue q ! i)) (processing q) - {item_id (queue q ! i)} = processing q"
    using el by (auto simp: eligible_def)
  show ?thesis
    using d pc ex c p i by (simp add: process_queue_step_def)
qed

lemma process_queue_step_idle:
  assumes "first_index (eligible (processing q)) (queue q) = None"
  shows "process_queue_step lib env q = q"
  using assms by (simp add: process_queue_step_def dequeue_def)



text \<open>
  Claim C8. When \<open>_load_queue\<close> loads the persisted list, every item persisted with status
  \<open>processing\<close> is still in the queue, at its place, with status \<open>pending\<close> and its other
  fields untouched; it passes the test of \<open>dequeue\<close> (the set of ids in processing is
  empty), so \<open>dequeue\<close> on the reloaded queue hands out an item.
\<close>

theorem load_queue_resets_processing:
  assumes "i < length items" and "item_status (items ! i) = Processing"
  shows "length (queue (load_queue (Pickled items) q)) = length items
     \<and> queue (load_queue (Pickled items) q) ! i = (items ! i)\<lparr>item_status := Pending\<rparr>
     \<and> eligible (processing (load_queue (Pickled items) q)) (queue (load_queue (Pickled items) q) ! i)
     \<and> fst (dequeue now (load_queue (Pickled items) q)) \<noteq> None"
proof -
  let ?q = "load_queue (Pickled items) q"
  have q: "queue ?q = map reset_item items" and p: "processing ?q = {}"
    by (simp_all add: load_queue_def)
  have it: "queue ?q ! i = (items ! i)\<lparr>item_status := Pending\<rparr>"
    using assms by (simp add: q reset_item_def)
  have el: "eligible (processing ?q) (queue ?q ! i)"
    by (simp add: it p eligible_def)
  have "queue ?q ! i \<in> set (queue ?q)"
    using assms(1) q by (metis length_map nth_mem)
  with el have "first_index (eligible (processing ?q)) (queue ?q) \<noteq> None"
    by (auto simp: first_index_None_iff)
  then have "fst (dequeue now ?q) \<noteq> None"
    by (auto simp: dequeue_def Let_def split: option.splits)
  with q it el show ?thesis by simp
qed

theorem load_queue_resets_processing_witness:
  "(1::nat) < length persisted_items \<and> item_status (persisted_items ! 1) = Processing
   \<and> item_status (queue (load_queue (Pickled persisted_items) empty_queue) ! 1) = Pending
   \<and> item_id (queue (load_queue (Pickled persisted_items) empty_queue) ! 1) = ''b''
   \<and> fst (dequeue 20 (load_queue (Pickled persisted_items) empty_queue)) \<noteq> None"
proof -
  have h1: "(1::nat) < length persisted_items" by (simp add: persisted_items_def)
  have h2: "item_status (persisted_items ! 1) = Processing" by (simp add: persisted_items_def)
  from load_queue_resets_processing [OF h1 h2, of empty_queue 20] h1 h2
  show ?thesis by (simp add: persisted_items_def)
qed

lemma strip_not_json: "strip ''not json'' = ''not json''"
  by (simp add: strip_def is_space_def is_space2_def is_space3_def)

lemma second_pending_queue_fields:
  "map (\<lambda>it. (item_id it, item_status it, item_proxy_command it))
       (queue second_pending_queue)
     = [(''a'', Completed, Some ''python -c uptime''), (''b'', Pending, Some ''python -c uptime'')]"
  "map item_callback (queue second_pending_queue) = [None, None]"
  "processing second_pending_queue = {}"
  by (simp_all add: second_pending_queue_def one_item_queue_def enqueue_def sample_request_def
      empty_queue_def Let_def process_queue_step_def dequeue_def eligible_def sample_env_def
      execute_proxy_command_def parse_feedback_def sample_library_def strip_braces
      run_callback_def complete_def)

text \<open>
  Claim C10, as amended. When the item that \<open>dequeue\<close> hands to the worker has a
  \<open>proxy_command\<close>, no earlier item of the queue carries its id, and its callback (if any)
  returns without raising, the iteration leaves it \<open>completed\<close> with a stored result: the
  error dictionary built from the exception when running the command raised, the error
  dictionary built from the parsing failure when the output is not JSON or not a JSON
  object, and the parsed feedback otherwise. No run of the worker turns an item's status
  into \<open>failed\<close>.
\<close>

theorem worker_completes_dequeued_item:
  assumes "first_index (eligible (processing q)) (queue q) = Some i"
    and "\<forall>j<i. item_id (queue q ! j) \<noteq> item_id (queue q ! i)"
    and "item_proxy_command (queue q ! i) = Some pc"
    and "\<forall>arg. run_callback (item_callback (queue q ! i)) arg = None"
  shows "fst (dequeue (now_dequeue env) q) =
           Some ((queue q ! i)\<lparr>item_status := Processing,
                                item_processing_time := Some (now_dequeue env)\<rparr>)
     \<and> item_status (queue (process_queue_step lib env q) ! i) = Completed
     \<and> (\<exists>res. item_result (queue (process_queue_step lib env q) ! i) = Some res)
     \<and> (\<forall>e. run_result env = Inl e \<longrightarrow>
            item_result (queue (process_queue_step lib env q) ! i) =
              Some (error_dict (item_id (queue q ! i)) (exec_failed_prefix @ str_exc e)
                      (now_exec_return env)))
     \<and> (\<forall>r e. run_result env = Inr r \<and> json_loads lib (strip r) = Inl e \<longrightarrow>
            item_result (queue (process_queue_step lib env q) ! i) =
              Some (error_dict (item_id (queue q ! i)) (parse_failed_prefix @ str_exc e)
                      (now_parse_return env)))
     \<and> (\<forall>r v. run_result env = Inr r \<and> json_loads lib (strip r) = Inr v
                \<and> (\<forall>kvs. v \<noteq> JDict kvs) \<longrightarrow>
            item_result (queue (process_queue_step lib env q) ! i) =
              Some (error_dict (item_id (queue q ! i))
                      (parse_failed_prefix @ str_exc (attribute_error v ''get''))
                      (now_parse_return env)))
     \<and> (\<forall>r kvs. run_result env = Inr r \<and> json_loads lib (strip r) = Inr (JDict kvs) \<longrightarrow>
            item_result (queue (process_queue_step lib env q) ! i) = Some (JDict kvs))
     \<and> (\<forall>envs j. j < length (queue q) \<longrightarrow>
            item_status (queue (process_queue lib envs q) ! j) = Failed \<longrightarrow>
            item_status (queue q ! j) = Failed)"
proof -
  from first_index_SomeD [OF assms(1)] have i: "i < length (queue q)" by simp
  let ?id = "item_id (queue q ! i)"
  let ?res = "case run_result env of
            Inl e \<Rightarrow> error_dict ?id (exec_failed_prefix @ str_exc e) (now_exec_return env)
          | Inr r \<Rightarrow>
              (case json_loads lib (strip r) of
                 Inl e \<Rightarrow> error_dict ?id (parse_failed_prefix @ str_exc e) (now_parse_return env)
               | Inr (JDict kvs) \<Rightarrow> JDict kvs
               | Inr v \<Rightarrow> error_dict ?id (parse_failed_prefix @ str_exc (attribute_error v ''get''))
                            (now_parse_return env))"
  have ex: "execute_proxy_command lib env pc ?id (item_callback (queue q ! i)) = Inr ?res"
    by (rule execute_proxy_command_quiet [OF assms(4)])
  note step = process_queue_step_completes [OF assms(1) assms(2) assms(3) ex]
  have a: "fst (dequeue (now_dequeue env) q) =
           Some ((queue q ! i)\<lparr>item_status := Processing,
                                item_processing_time := Some (now_dequeue env)\<rparr>)"
    using assms(1) by (simp add: dequeue_def Let_def)
  have b: "item_status (queue (process_queue_step lib env q) ! i) = Completed"
    using i by (simp add: step)
  have c: "item_result (queue (process_queue_step lib env q) ! i) = Some ?res"
    using i by (simp add: step)
  have c1: "\<forall>e. run_result env = Inl e \<longrightarrow>
            item_result (queue (process_queue_step lib env q) ! i) =
              Some (error_dict ?id (exec_failed_prefix @ str_exc e) (now_exec_return env))"
    by (simp add: c)
  have c2: "\<forall>r e. run_result env = Inr r \<and> json_loads lib (strip r) = Inl e \<longrightarrow>
            item_result (queue (process_queue_step lib env q) ! i) =
              Some (error_dict ?id (parse_failed_prefix @ str_exc e) (now_parse_return env))"
    by (simp add: c)
  have c3: "\<forall>r v. run_result env = Inr r \<and> json_loads lib (strip r) = Inr v
                \<and> (\<forall>kvs. v \<noteq> JDict kvs) \<longrightarrow>
            item_result (queue (process_queue_step lib env q) ! i) =
              Some (error_dict ?id (parse_failed_prefix @ str_exc (attribute_error v ''get''))
                      (now_parse_return env))"
    by (auto simp: c split: json.splits)
  have c4: "\<forall>r kvs. run_result env = Inr r \<and> json_loads lib (strip r) = Inr (JDict kvs) \<longrightarrow>
            item_result (queue (process_queue_step lib env q) ! i) = Some (JDict kvs)"
    by (simp add: c)
  have d: "\<forall>envs j. j < length (queue q) \<longrightarrow>
            item_status (queue (process_queue lib envs q) ! j) = Failed \<longrightarrow>
            item_status (queue q ! j) = Failed"
    using process_queue_never_fails by blast
  from c have c0: "\<exists>res. item_result (queue (process_queue_step lib env q) ! i) = Some res"
    by blast
  from a b c0 c1 c2 c3 c4 d show ?thesis by blast
qed

theorem worker_completes_dequeued_item_witness:
  "first_index (eligible (processing second_pending_queue)) (queue second_pending_queue) = Some 1
   \<and> item_id (queue second_pending_queue ! 0) = ''a''
   \<and> item_id (queue second_pending_queue ! 1) = ''b''
   \<and> item_status (queue (process_queue_step sample_library failing_env second_pending_queue) ! 1)
       = Completed
   \<and> item_result (queue (process_queue_step sample_library failing_env second_pending_queue) ! 1)
       = Some (error_dict ''b'' (exec_failed_prefix @ ''timed out'') 14)
   \<and> item_result (queue (process_queue_step sample_library garbled_env second_pending_queue) ! 1)
       = Some (error_dict ''b'' (parse_failed_prefix @ ''Expecting value'') 12)"
proof -
  let ?q = "second_pending_queue"
  have len: "length (queue ?q) = 2"
    using second_pending_queue_fields(2) [THEN arg_cong, of length] by simp
  have fields: "map item_id (queue ?q) = [''a'', ''b'']"
    "map item_status (queue ?q) = [Completed, Pending]"
    "map item_proxy_command (queue ?q) = [Some ''python -c uptime'', Some ''python -c uptime'']"
    using second_pending_queue_fields(1) [THEN arg_cong, of "map fst"]
      second_pending_queue_fields(1) [THEN arg_cong, of "map (\<lambda>t. fst (snd t))"]
      second_pending_queue_fields(1) [THEN arg_cong, of "map (\<lambda>t. snd (snd t))"]
    by (simp_all add: comp_def)
  have "item_id (queue ?q ! 0) = map item_id (queue ?q) ! 0"
    and "item_id (queue ?q ! 1) = map item_id (queue ?q) ! 1"
    and "item_status (queue ?q ! 0) = map item_status (queue ?q) ! 0"
    and "item_status (queue ?q ! 1) = map item_status (queue ?q) ! 1"
    and "item_proxy_command (queue ?q ! 1) = map item_proxy_command (queue ?q) ! 1"
    and "item_callback (queue ?q ! 1) = map item_callback (queue ?q) ! 1"
    using len by simp_all
  then have id0: "item_id (queue ?q ! 0) = ''a''" and id1: "item_id (queue ?q ! 1) = ''b''"
    and st0: "item_status (queue ?q ! 0) = Completed"
    and st1: "item_status (queue ?q ! 1) = Pending"
    and pc1: "item_proxy_command (queue ?q ! 1) = Some ''python -c uptime''"
    and cb1: "item_callback (queue ?q ! 1) = None"
    by (simp_all add: fields second_pending_queue_fields(2))
  have h1: "first_index (eligible (processing ?q)) (queue ?q) = Some 1"
  proof (rule first_index_SomeI)
    show "1 < length (queue ?q)" using len by simp
    show "eligible (processing ?q) (queue ?q ! 1)"
      using st1 by (simp add: eligible_def second_pending_queue_fields(3))
    show "\<forall>j<1. \<not> eligible (processing ?q) (queue ?q ! j)"
      using st0 by (simp add: eligible_def)
  qed
  have h2: "\<forall>j<1. item_id (queue ?q ! j) \<noteq> item_id (queue ?q ! 1)"
    using id0 id1 by simp
  have h4: "\<forall>arg. run_callback (item_callback (queue ?q ! 1)) arg = None"
    using cb1 by (simp add: run_callback_def)
  have f: "run_result failing_env = Inl (SocketError ''timed out'')"
    "now_exec_return failing_env = 14"
    by (simp_all add: failing_env_def sample_env_def)
  have g: "run_result garbled_env = Inr ''not json''"
    "json_loads sample_library (strip ''not json'') = Inl (JSONDecodeError ''Expecting value'')"
    "now_parse_return garbled_env = 12"
    by (simp_all add: garbled_env_def sample_env_def strip_not_json sample_library_def)
  from worker_completes_dequeued_item [OF h1 h2 pc1 h4, of failing_env sample_library] f id1
  have a: "item_status (queue (process_queue_step sample_library failing_env ?q) ! 1) = Completed"
    and b: "item_result (queue (process_queue_step sample_library failing_env ?q) ! 1)
       = Some (error_dict ''b'' (exec_failed_prefix @ ''timed out'') 14)"
    by simp_all
  from worker_completes_dequeued_item [OF h1 h2 pc1 h4, of garbled_env sample_library] g id1
  have c: "item_result (queue (process_queue_step sample_library garbled_env ?q) ! 1)
       = Some (error_dict ''b'' (parse_failed_prefix @ ''Expecting value'') 12)"
    by simp
  from h1 id0 id1 a b c show ?thesis by simp
qed

text \<open>
  Claim C10 as stated fails: an item whose callback raises on every call is dequeued, the
  exception leaves \<open>_execute_proxy_command\<close>, the loop's handler swallows it, and the item
  stays \<open>processing\<close> however long the worker runs.
\<close>

theorem worker_leaves_item_processing_counterexample:
  "map_option item_id (fst (dequeue (now_dequeue sample_env) raising_item_queue)) = Some ''a''
   \<and> map item_status (queue (process_queue sample_library [sample_env] raising_item_queue))
       = [Processing]
   \<and> map item_status (queue (process_queue sample_library [sample_env, sample_env, sample_env]
         raising_item_queue)) = [Processing]"
  by (simp add: raising_item_queue_def enqueue_def sample_request_def empty_queue_def Let_def
      dequeue_def eligible_def sample_env_def process_queue_step_def execute_proxy_command_def
      parse_feedback_def sample_library_def strip_braces run_callback_def
      raising_callback_def on_parse_error_def on_exec_error_def)



text \<open>The two phases of the interleaved model make up one iteration of the loop.\<close>

lemma process_queue_step_phases:
  "ws_queue (queue_step lib (Finish env)
      (queue_step lib (Claim (now_dequeue env)) \<lparr>ws_queue = q, in_flight = None\<rparr>))
   = process_queue_step lib env q"
  by (simp add: process_queue_step_def split: prod.splits option.splits sum.splits)

lemma run_queue_snoc:
  "run_queue lib (evs @ [e]) ws = queue_step lib e (run_queue lib evs ws)"
  by (induction evs arbitrary: ws) simp_all

lemma enqueue_queue:
  "\<exists>it. queue (snd (enqueue now req q)) = queue q @ [it] \<and> item_sequence it = length (queue q)
        \<and> item_status it = Pending \<and> processing (snd (enqueue now req q)) = processing q"
  by (simp add: enqueue_def Let_def)

lemma dequeue_keys:
  "map item_key (queue (snd (dequeue now q))) = map item_key (queue q)"
proof (cases "first_index (eligible (processing q)) (queue q)")
  case None
  then show ?thesis by (simp add: dequeue_def)
next
  case (Some i)
  from first_index_SomeD [OF Some] have "i < length (queue q)" by simp
  then show ?thesis using Some
    by (simp add: dequeue_def Let_def map_update item_key_def list_update_same_conv)
qed

lemma complete_keys:
  "map item_key (queue (snd (complete now iid res q))) = map item_key (queue q)"
proof (cases "first_index (\<lambda>item. item_id item = iid) (queue q)")
  case None
  then show ?thesis by (simp add: complete_def)
next
  case (Some i)
  from first_index_SomeD [OF Some] have "i < length (queue q)" by simp
  then show ?thesis using Some
    by (simp add: complete_def Let_def map_update item_key_def list_update_same_conv)
qed

lemma queue_step_keys:
  "\<exists>extra. map item_key (queue (ws_queue (queue_step lib e ws)))
            = map item_key (queue (ws_queue ws)) @ extra"
proof (cases e)
  case (Enqueue now req)
  from enqueue_queue [of now req "ws_queue ws"] show ?thesis
    using Enqueue by auto
next
  case (Claim now)
  have "map item_key (queue (ws_queue (queue_step lib (Claim now) ws)))
          = map item_key (queue (ws_queue ws))"
    using dequeue_keys [of now "ws_queue ws"]
    by (auto split: option.splits prod.splits)
  with Claim show ?thesis by simp
next
  case (Finish env)
  have "map item_key (queue (ws_queue (queue_step lib (Finish env) ws)))
          = map item_key (queue (ws_queue ws))"
    by (auto simp: complete_keys split: option.splits sum.splits)
  with Finish show ?thesis by simp
qed

lemma sequence_inv_update:
  assumes inv: "sequence_inv q" and k: "k < length (queue q)"
    and id: "item_id x = item_id (queue q ! k)"
    and sq: "item_sequence x = item_sequence (queue q ! k)"
    and st: "item_status x \<noteq> Pending"
    and P: "P' \<subseteq> insert (item_id x) (processing q)"
  shows "sequence_inv (q\<lparr>queue := (queue q)[k := x], processing := P'\<rparr>)"
proof -
  have ids: "map item_id ((queue q)[k := x]) = map item_id (queue q)"
    using k id by (simp add: map_update list_update_same_conv)
  have seqs: "\<forall>j<length (queue q). item_sequence ((queue q)[k := x] ! j) = j"
    using inv k sq by (simp add: sequence_inv_def nth_list_update)
  have procs: "\<exists>j<length (queue q). item_id ((queue q)[k := x] ! j) = p
                  \<and> item_status ((queue q)[k := x] ! j) \<noteq> Pending" if "p \<in> P'" for p
  proof (cases "p = item_id x")
    case True
    with k st show ?thesis by (intro exI [of _ k]) simp
  next
    case False
    with that P have "p \<in> processing q" by auto
    with inv obtain j where j: "j < length (queue q)" "item_id (queue q ! j) = p"
      "item_status (queue q ! j) \<noteq> Pending"
      by (auto simp: sequence_inv_def)
    with False id have "j \<noteq> k" by auto
    with j show ?thesis by (intro exI [of _ j]) simp
  qed
  from inv have "distinct (map item_id (queue q))" by (simp add: sequence_inv_def)
  with ids seqs procs show ?thesis by (simp add: sequence_inv_def)
qed

lemma sequence_inv_dequeue:
  assumes "sequence_inv q"
  shows "sequence_inv (snd (dequeue now q))"
proof (cases "first_index (eligible (processing q)) (queue q)")
  case None
  with assms show ?thesis by (simp add: dequeue_def)
next
  case (Some i)
  from first_index_SomeD [OF Some] have i: "i < length (queue q)" by simp
  show ?thesis
    using Some sequence_inv_update [OF assms i, of
        "(queue q ! i)\<lparr>item_status := Processing, item_processing_time := Some now\<rparr>"
        "insert (item_id (queue q ! i)) (processing q)"]
    by (simp add: dequeue_def Let_def)
qed

lemma sequence_inv_complete:
  assumes "sequence_inv q"
  shows "sequence_inv (snd (complete now iid res q))"
proof (cases "first_index (\<lambda>item. item_id item = iid) (queue q)")
  case None
  with assms show ?thesis by (simp add: complete_def)
next
  case (Some i)
  from first_index_SomeD [OF Some] have i: "i < length (queue q)" by simp
  let ?x = "(queue q ! i)\<lparr>item_status := Completed, item_result := Some res,
                            item_completion_time := Some now\<rparr>"
  have a: "sequence_inv (q\<lparr>queue := (queue q)[i := ?x], processing := processing q - {iid}\<rparr>)"
    by (rule sequence_inv_update [OF assms i]) auto
  have b: "sequence_inv (q\<lparr>queue := (queue q)[i := ?x], processing := processing q\<rparr>)"
    by (rule sequence_inv_update [OF assms i]) auto
  show ?thesis
    using Some a b by (simp add: complete_def Let_def)
qed

lemma sequence_inv_enqueue:
  assumes inv: "sequence_inv q"
    and d: "distinct (map item_id (queue (snd (enqueue now req q))))"
  shows "sequence_inv (snd (enqueue now req q))"
proof -
  obtain it where q': "queue (snd (enqueue now req q)) = queue q @ [it]"
    and sq: "item_sequence it = length (queue q)"
    and p: "processing (snd (enqueue now req q)) = processing q"
    using enqueue_queue [of now req q] by blast
  have seqs: "\<forall>j<length (queue q @ [it]). item_sequence ((queue q @ [it]) ! j) = j"
    using inv sq by (auto simp: sequence_inv_def nth_append less_Suc_eq)
  have procs: "\<exists>j<length (queue q @ [it]). item_id ((queue q @ [it]) ! j) = pid
                  \<and> item_status ((queue q @ [it]) ! j) \<noteq> Pending" if "pid \<in> processing q" for pid
  proof -
    from inv that obtain j where j: "j < length (queue q)" "item_id (queue q ! j) = pid"
      "item_status (queue q ! j) \<noteq> Pending"
      by (auto simp: sequence_inv_def)
    then show ?thesis by (intro exI [of _ j]) (simp add: nth_append)
  qed
  from d seqs procs show ?thesis
    unfolding sequence_inv_def q' p by blast
qed

lemma sequence_inv_step:
  assumes "sequence_inv (ws_queue ws)"
    and "distinct (map item_id (queue (ws_queue (queue_step lib e ws))))"
  shows "sequence_inv (ws_queue (queue_step lib e ws))"
proof (cases e)
  case (Enqueue now req)
  with assms show ?thesis by (simp add: sequence_inv_enqueue)
next
  case (Claim now)
  have "sequence_inv (snd (dequeue now (ws_queue ws)))"
    by (rule sequence_inv_dequeue [OF assms(1)])
  with Claim assms(1) show ?thesis
    by (auto split: option.splits prod.splits)
next
  case (Finish env)
  with assms(1) show ?thesis
    by (auto simp: sequence_inv_complete split: option.splits sum.splits)
qed



lemma status_cases:
  "s \<noteq> Pending \<Longrightarrow> s \<noteq> Processing \<Longrightarrow> s \<noteq> Failed \<Longrightarrow> s = Completed"
  by (cases s) simp_all

lemma fifo_inv_enqueue:
  assumes "fifo_inv ws"
  shows "fifo_inv (queue_step lib (Enqueue now req) ws)"
proof -
  let ?xs = "queue (ws_queue ws)"
  obtain it where q': "queue (snd (enqueue now req (ws_queue ws))) = ?xs @ [it]"
    and st: "item_status it = Pending"
    and p: "processing (snd (enqueue now req (ws_queue ws))) = processing (ws_queue ws)"
    using enqueue_queue [of now req "ws_queue ws"] by blast
  from assms have nf: "\<forall>j<length ?xs. item_status (?xs ! j) \<noteq> Failed"
    and ord: "\<forall>j<length ?xs. item_status (?xs ! j) \<noteq> Pending \<longrightarrow>
             (\<forall>i<j. item_status (?xs ! i) = Completed)"
    by (simp_all add: fifo_inv_def Let_def)
  have old: "\<And>j. j < length ?xs \<Longrightarrow> (?xs @ [it]) ! j = ?xs ! j"
    by (simp add: nth_append)
  have new: "(?xs @ [it]) ! length ?xs = it"
    by simp
  have a: "\<forall>j<length (?xs @ [it]). item_status ((?xs @ [it]) ! j) \<noteq> Failed"
  proof (intro allI impI)
    fix j assume "j < length (?xs @ [it])"
    then consider "j < length ?xs" | "j = length ?xs" by fastforce
    then show "item_status ((?xs @ [it]) ! j) \<noteq> Failed"
    proof cases
      case 1
      with nf show ?thesis by (simp add: old)
    next
      case 2
      with st show ?thesis by (simp add: new)
    qed
  qed
  have b: "\<forall>j<length (?xs @ [it]). item_status ((?xs @ [it]) ! j) \<noteq> Pending \<longrightarrow>
             (\<forall>i<j. item_status ((?xs @ [it]) ! i) = Completed)"
  proof (intro allI impI)
    fix j i assume j: "j < length (?xs @ [it])" "item_status ((?xs @ [it]) ! j) \<noteq> Pending" "i < j"
    from j(1) consider "j < length ?xs" | "j = length ?xs" by fastforce
    then show "item_status ((?xs @ [it]) ! i) = Completed"
    proof cases
      case 1
      with j(2) have "item_status (?xs ! j) \<noteq> Pending" by (simp add: old)
      with ord 1 j(3) have "item_status (?xs ! i) = Completed" by simp
      with 1 j(3) show ?thesis by (simp add: old)
    next
      case 2
      with j(2) st show ?thesis by (simp add: new)
    qed
  qed
  have np: "item_status ((?xs @ [it]) ! j) \<noteq> Processing"
    if "j < length (?xs @ [it])" "j < length ?xs \<Longrightarrow> item_status (?xs ! j) \<noteq> Processing" for j
  proof -
    from that(1) consider "j < length ?xs" | "j = length ?xs" by fastforce
    then show ?thesis
    proof cases
      case 1
      with that(2) show ?thesis by (simp add: old)
    next
      case 2
      with st show ?thesis by (simp add: new)
    qed
  qed
  show ?thesis
  proof (cases "in_flight ws")
    case None
    with assms have pe: "processing (ws_queue ws) = {}"
      and npo: "\<forall>j<length ?xs. item_status (?xs ! j) \<noteq> Processing"
      by (simp_all add: fifo_inv_def Let_def)
    have "\<forall>j<length (?xs @ [it]). item_status ((?xs @ [it]) ! j) \<noteq> Processing"
      using np npo by blast
    with a b pe None show ?thesis
      by (simp add: fifo_inv_def Let_def q' p)
  next
    case (Some item)
    with assms obtain k where k: "k < length ?xs" "?xs ! k = item" "item_status item = Processing"
      "\<forall>j<length ?xs. j \<noteq> k \<longrightarrow> item_status (?xs ! j) \<noteq> Processing"
      and pr: "processing (ws_queue ws) = {item_id item}"
      by (auto simp: fifo_inv_def Let_def)
    have others: "\<forall>j<length (?xs @ [it]). j \<noteq> k \<longrightarrow> item_status ((?xs @ [it]) ! j) \<noteq> Processing"
      using np k(4) by blast
    have "\<exists>k<length (?xs @ [it]). (?xs @ [it]) ! k = item \<and> item_status item = Processing
            \<and> (\<forall>j<length (?xs @ [it]). j \<noteq> k \<longrightarrow> item_status ((?xs @ [it]) ! j) \<noteq> Processing)"
    proof (intro exI [of _ k] conjI)
      show "k < length (?xs @ [it])" using k(1) by simp
      show "(?xs @ [it]) ! k = item" using k(1) k(2) by (simp add: old)
      show "item_status item = Processing" by (rule k(3))
      show "\<forall>j<length (?xs @ [it]). j \<noteq> k \<longrightarrow> item_status ((?xs @ [it]) ! j) \<noteq> Processing"
        by (rule others)
    qed
    with a b pr Some show ?thesis
      by (simp add: fifo_inv_def Let_def q' p)
  qed
qed

lemma fifo_inv_claim:
  assumes inv: "fifo_inv ws"
    and wb: "\<forall>it\<in>set (queue (ws_queue ws)). well_behaved it"
  shows "fifo_inv (queue_step lib (Claim now) ws)"
proof (cases "in_flight ws")
  case (Some busy)
  with inv show ?thesis by simp
next
  case None
  let ?q = "ws_queue ws"
  let ?xs = "queue ?q"
  from inv None have pe: "processing ?q = {}"
    and np: "\<forall>j<length ?xs. item_status (?xs ! j) \<noteq> Processing"
    and nf: "\<forall>j<length ?xs. item_status (?xs ! j) \<noteq> Failed"
    and ord: "\<forall>j<length ?xs. item_status (?xs ! j) \<noteq> Pending \<longrightarrow>
             (\<forall>i<j. item_status (?xs ! i) = Completed)"
    by (simp_all add: fifo_inv_def Let_def)
  show ?thesis
  proof (cases "first_index (eligible (processing ?q)) ?xs")
    case fnone: None
    then have "queue_step lib (Claim now) ws = ws"
      using None by (simp add: dequeue_def)
    with inv show ?thesis by simp
  next
    case (Some i)
    from first_index_SomeD [OF Some] pe
    have i: "i < length ?xs" and sti: "item_status (?xs ! i) = Pending"
      and before: "\<forall>j<i. item_status (?xs ! j) \<noteq> Pending"
      by (auto simp: eligible_def)
    let ?x = "(?xs ! i)\<lparr>item_status := Processing, item_processing_time := Some now\<rparr>"
    let ?ys = "?xs[i := ?x]"
    from wb i have "well_behaved (?xs ! i)" by simp
    then obtain pc where pc: "item_proxy_command (?xs ! i) = Some pc"
      by (auto simp: well_behaved_def)
    have step: "queue_step lib (Claim now) ws =
        \<lparr>ws_queue = ?q\<lparr>queue := ?ys, processing := {item_id (?xs ! i)}\<rparr>, in_flight = Some ?x\<rparr>"
      using None Some pc pe by (simp add: dequeue_def Let_def)
    have a: "\<forall>j<length ?ys. item_status (?ys ! j) \<noteq> Failed"
      using nf i by (auto simp: nth_list_update)
    have b: "\<forall>j<length ?ys. item_status (?ys ! j) \<noteq> Pending \<longrightarrow>
             (\<forall>k<j. item_status (?ys ! k) = Completed)"
    proof (intro allI impI)
      fix j k assume j: "j < length ?ys" "item_status (?ys ! j) \<noteq> Pending" "k < j"
      show "item_status (?ys ! k) = Completed"
      proof (cases "j = i")
        case True
        with j(3) before have "item_status (?xs ! k) \<noteq> Pending" by simp
        moreover from j(3) True i have kl: "k < length ?xs" by simp
        ultimately have "item_status (?xs ! k) = Completed"
          using np nf by (intro status_cases) auto
        with True j(3) show ?thesis by simp
      next
        case False
        with j have "item_status (?xs ! j) \<noteq> Pending" by simp
        with ord j have all: "\<forall>k<j. item_status (?xs ! k) = Completed" by simp
        with sti have "\<not> i < j" by auto
        with j(3) have "k \<noteq> i" by auto
        with all j(3) show ?thesis by simp
      qed
    qed
    have c: "\<exists>k<length ?ys. ?ys ! k = ?x \<and> item_status ?x = Processing
                \<and> (\<forall>j<length ?ys. j \<noteq> k \<longrightarrow> item_status (?ys ! j) \<noteq> Processing)"
      using i np by (intro exI [of _ i]) (auto simp: nth_list_update)
    from a b c show ?thesis
      unfolding step by (simp add: fifo_inv_def Let_def)
  qed
qed

lemma distinct_ids_before:
  assumes "distinct (map item_id xs)" and "k < length xs"
  shows "\<forall>j<k. item_id (xs ! j) \<noteq> item_id (xs ! k)"
proof (intro allI impI)
  fix j assume jk: "j < k"
  with assms(2) have jl: "j < length (map item_id xs)" and kl: "k < length (map item_id xs)"
    by simp_all
  from jk have "j \<noteq> k" by simp
  with nth_eq_iff_index_eq [OF assms(1) jl kl]
  have "map item_id xs ! j \<noteq> map item_id xs ! k" by simp
  with assms(2) jk show "item_id (xs ! j) \<noteq> item_id (xs ! k)" by simp
qed

lemma fifo_inv_finish:
  assumes inv: "fifo_inv ws"
    and d: "distinct (map item_id (queue (ws_queue ws)))"
    and wb: "\<forall>it\<in>set (queue (ws_queue ws)). well_behaved it"
  shows "fifo_inv (queue_step lib (Finish env) ws)"
proof (cases "in_flight ws")
  case None
  with inv show ?thesis by simp
next
  case (Some item)
  let ?q = "ws_queue ws"
  let ?xs = "queue ?q"
  from inv have nf: "\<forall>j<length ?xs. item_status (?xs ! j) \<noteq> Failed"
    and ord: "\<forall>j<length ?xs. item_status (?xs ! j) \<noteq> Pending \<longrightarrow>
             (\<forall>i<j. item_status (?xs ! i) = Completed)"
    by (simp_all add: fifo_inv_def Let_def)
  from inv Some obtain k where k: "k < length ?xs" "?xs ! k = item" "item_status item = Processing"
      "\<forall>j<length ?xs. j \<noteq> k \<longrightarrow> item_status (?xs ! j) \<noteq> Processing"
      and pr: "processing ?q = {item_id item}"
    by (auto simp: fifo_inv_def Let_def)
  from wb k have "well_behaved item" by (metis nth_mem)
  then obtain pc where pc: "item_proxy_command item = Some pc"
    and quiet: "\<forall>arg. run_callback (item_callback item) arg = None"
    by (auto simp: well_behaved_def)
  obtain res where ex: "execute_proxy_command lib env pc (item_id item) (item_callback item) = Inr res"
    using execute_proxy_command_quiet [OF quiet] by blast
  have fi: "first_index (\<lambda>it. item_id it = item_id item) ?xs = Some k"
  proof (rule first_index_SomeI)
    show "k < length ?xs" by (rule k(1))
    show "item_id (?xs ! k) = item_id item" using k(2) by simp
    show "\<forall>j<k. item_id (?xs ! j) \<noteq> item_id item"
      using distinct_ids_before [OF d k(1)] k(2) by simp
  qed
  let ?x = "item\<lparr>item_status := Completed, item_result := Some res,
                  item_completion_time := Some (now_complete env)\<rparr>"
  let ?ys = "?xs[k := ?x]"
  have step: "queue_step lib (Finish env) ws =
      \<lparr>ws_queue = ?q\<lparr>queue := ?ys, processing := {}\<rparr>, in_flight = None\<rparr>"
    using Some pc ex fi pr k(2) by (simp add: complete_def Let_def)
  have a: "\<forall>j<length ?ys. item_status (?ys ! j) \<noteq> Failed"
    using nf k(1) by (auto simp: nth_list_update)
  have c: "\<forall>j<length ?ys. item_status (?ys ! j) \<noteq> Processing"
    using k(1) k(4) by (auto simp: nth_list_update)
  have b: "\<forall>j<length ?ys. item_status (?ys ! j) \<noteq> Pending \<longrightarrow>
             (\<forall>i<j. item_status (?ys ! i) = Completed)"
  proof (intro allI impI)
    fix j i assume j: "j < length ?ys" "item_status (?ys ! j) \<noteq> Pending" "i < j"
    have "item_status (?xs ! j) \<noteq> Pending"
    proof (cases "j = k")
      case True
      with k show ?thesis by simp
    next
      case False
      with j show ?thesis by simp
    qed
    with ord j have "item_status (?xs ! i) = Completed" by simp
    with j k(1) show "item_status (?ys ! i) = Completed"
      by (simp add: nth_list_update)
  qed
  from a b c show ?thesis
    unfolding step by (simp add: fifo_inv_def Let_def)
qed

lemma fifo_inv_step:
  assumes "fifo_inv ws"
    and "distinct (map item_id (queue (ws_queue ws)))"
    and "\<forall>it\<in>set (queue (ws_queue ws)). well_behaved it"
  shows "fifo_inv (queue_step lib e ws)"
  using assms by (cases e) (simp_all only: fifo_inv_enqueue fifo_inv_claim fifo_inv_finish)

lemma well_behaved_key:
  "item_key a = item_key b \<Longrightarrow> well_behaved a = well_behaved b"
  by (simp add: item_key_def well_behaved_def)

lemma keys_prefix_facts:
  assumes "map item_key ys = map item_key xs @ extra"
  shows "distinct (map item_id ys) \<Longrightarrow> distinct (map item_id xs)"
    and "\<forall>it\<in>set ys. well_behaved it \<Longrightarrow> \<forall>it\<in>set xs. well_behaved it"
proof -
  have ids: "map item_id ys = map item_id xs @ map fst extra"
  proof -
    have "map item_id ys = map fst (map item_key ys)"
      by (simp add: item_key_def)
    also have "\<dots> = map fst (map item_key xs) @ map fst extra"
      by (simp add: assms)
    also have "map fst (map item_key xs) = map item_id xs"
      by (simp add: item_key_def)
    finally show ?thesis .
  qed
  show "distinct (map item_id ys) \<Longrightarrow> distinct (map item_id xs)"
    by (simp add: ids)
  show "\<forall>it\<in>set xs. well_behaved it" if wb: "\<forall>it\<in>set ys. well_behaved it"
  proof
    fix it assume "it \<in> set xs"
    then have "item_key it \<in> set (map item_key ys)" by (simp add: assms)
    then obtain it' where "it' \<in> set ys" "item_key it' = item_key it" by auto
    with wb well_behaved_key show "well_behaved it" by blast
  qed
qed

lemma idle_worker_invs: "sequence_inv (ws_queue idle_worker)" "fifo_inv idle_worker"
  by (simp_all add: idle_worker_def sequence_inv_def fifo_inv_def)

lemma run_queue_sequence_inv:
  assumes "distinct (map item_id (queue (ws_queue (run_queue lib evs idle_worker))))"
  shows "sequence_inv (ws_queue (run_queue lib evs idle_worker))"
  using assms
proof (induction evs rule: rev_induct)
  case Nil
  then show ?case by (simp add: idle_worker_invs)
next
  case (snoc e evs)
  let ?ws = "run_queue lib evs idle_worker"
  obtain extra where "map item_key (queue (ws_queue (queue_step lib e ?ws)))
            = map item_key (queue (ws_queue ?ws)) @ extra"
    using queue_step_keys by blast
  from keys_prefix_facts(1) [OF this] snoc.prems
  have "distinct (map item_id (queue (ws_queue ?ws)))" by (simp add: run_queue_snoc)
  then have "sequence_inv (ws_queue ?ws)" by (rule snoc.IH)
  then show ?case using snoc.prems
    by (simp add: run_queue_snoc sequence_inv_step)
qed

lemma run_queue_fifo_inv:
  assumes "distinct (map item_id (queue (ws_queue (run_queue lib evs idle_worker))))"
    and "\<forall>it\<in>set (queue (ws_queue (run_queue lib evs idle_worker))). well_behaved it"
  shows "fifo_inv (run_queue lib evs idle_worker)"
  using assms
proof (induction evs rule: rev_induct)
  case Nil
  then show ?case by (simp add: idle_worker_invs)
next
  case (snoc e evs)
  let ?ws = "run_queue lib evs idle_worker"
  obtain extra where ex: "map item_key (queue (ws_queue (queue_step lib e ?ws)))
            = map item_key (queue (ws_queue ?ws)) @ extra"
    using queue_step_keys by blast
  have d: "distinct (map item_id (queue (ws_queue ?ws)))"
    using keys_prefix_facts(1) [OF ex] snoc.prems(1) by (simp add: run_queue_snoc)
  have wb: "\<forall>it\<in>set (queue (ws_queue ?ws)). well_behaved it"
    using keys_prefix_facts(2) [OF ex] snoc.prems(2) by (simp add: run_queue_snoc)
  from snoc.IH [OF d wb] have "fifo_inv ?ws" .
  then show ?case using d wb
    by (simp add: run_queue_snoc fifo_inv_step)
qed



lemma sequence_inv_pending_eligible:
  assumes inv: "sequence_inv q" and j: "j < length (queue q)"
    and st: "item_status (queue q ! j) = Pending"
  shows "eligible (processing q) (queue q ! j)"
proof -
  have "item_id (queue q ! j) \<notin> processing q"
  proof
    assume "item_id (queue q ! j) \<in> processing q"
    with inv obtain k where k: "k < length (queue q)"
      "item_id (queue q ! k) = item_id (queue q ! j)" "item_status (queue q ! k) \<noteq> Pending"
      by (auto simp: sequence_inv_def)
    from inv have d: "distinct (map item_id (queue q))" by (simp add: sequence_inv_def)
    have "k = j"
    proof (rule ccontr)
      assume "k \<noteq> j"
      then consider "k < j" | "j < k" by linarith
      then show False
      proof cases
        case 1
        with distinct_ids_before [OF d j] k(2) show False by auto
      next
        case 2
        with distinct_ids_before [OF d k(1)] k(2) show False by auto
      qed
    qed
    with k(3) st show False by simp
  qed
  with st show ?thesis by (simp add: eligible_def)
qed

lemma sequence_inv_dequeue_lowest:
  assumes inv: "sequence_inv q"
  shows "case fst (dequeue now q) of
           None \<Rightarrow> \<forall>it\<in>set (queue q). item_status it \<noteq> Pending
         | Some it \<Rightarrow>
             \<exists>i<length (queue q). item_status (queue q ! i) = Pending
                \<and> it = (queue q ! i)\<lparr>item_status := Processing, item_processing_time := Some now\<rparr>
                \<and> (\<forall>it'\<in>set (queue q). item_status it' = Pending \<longrightarrow>
                       item_sequence (queue q ! i) \<le> item_sequence it')"
proof (cases "first_index (eligible (processing q)) (queue q)")
  case None
  have "\<forall>it\<in>set (queue q). item_status it \<noteq> Pending"
  proof
    fix it assume "it \<in> set (queue q)"
    then obtain j where j: "j < length (queue q)" "queue q ! j = it"
      by (auto simp: in_set_conv_nth)
    from None \<open>it \<in> set (queue q)\<close> have "\<not> eligible (processing q) it"
      by (simp add: first_index_None_iff)
    with sequence_inv_pending_eligible [OF inv j(1)] j(2)
    show "item_status it \<noteq> Pending" by auto
  qed
  with None show ?thesis by (simp add: dequeue_def)
next
  case (Some i)
  from first_index_SomeD [OF Some]
  have i: "i < length (queue q)" and el: "eligible (processing q) (queue q ! i)"
    and before: "\<forall>j<i. \<not> eligible (processing q) (queue q ! j)" by auto
  from inv have sq: "\<forall>j<length (queue q). item_sequence (queue q ! j) = j"
    by (simp add: sequence_inv_def)
  have low: "\<forall>it'\<in>set (queue q). item_status it' = Pending \<longrightarrow>
                       item_sequence (queue q ! i) \<le> item_sequence it'"
  proof (intro ballI impI)
    fix it' assume "it' \<in> set (queue q)" and p: "item_status it' = Pending"
    then obtain j where j: "j < length (queue q)" "queue q ! j = it'"
      by (auto simp: in_set_conv_nth)
    with sequence_inv_pending_eligible [OF inv j(1)] p
    have "eligible (processing q) (queue q ! j)" by simp
    with before have "\<not> j < i" by auto
    with sq i j show "item_sequence (queue q ! i) \<le> item_sequence it'" by auto
  qed
  have "\<exists>k<length (queue q). item_status (queue q ! k) = Pending
                \<and> (queue q ! i)\<lparr>item_status := Processing, item_processing_time := Some now\<rparr>
                   = (queue q ! k)\<lparr>item_status := Processing, item_processing_time := Some now\<rparr>
                \<and> (\<forall>it'\<in>set (queue q). item_status it' = Pending \<longrightarrow>
                       item_sequence (queue q ! k) \<le> item_sequence it')"
    using i el low by (intro exI [of _ i]) (simp add: eligible_def)
  with Some show ?thesis by (simp add: dequeue_def Let_def)
qed

text \<open>
  Claim C7, as amended. \<open>enqueue\<close> appends the item at the tail, pending, with the length
  of the queue as its sequence number. In every state that producers and the single
  worker reach from the empty queue with pairwise distinct item ids, \<open>dequeue\<close> returns the
  pending item with the lowest sequence number, or \<open>None\<close> when no item is pending; and
  when moreover every item has a \<open>proxy_command\<close> and a callback that does not raise, an
  item that is no longer pending has only completed items before it: items complete in
  the order of their enqueuing.
\<close>

theorem queue_is_fifo:
  assumes "distinct (map item_id (queue (ws_queue (run_queue lib evs idle_worker))))"
  shows "(\<exists>it. queue (snd (enqueue now req q)) = queue q @ [it]
              \<and> item_sequence it = length (queue q) \<and> item_status it = Pending)
     \<and> (case fst (dequeue now' (ws_queue (run_queue lib evs idle_worker))) of
           None \<Rightarrow> \<forall>it\<in>set (queue (ws_queue (run_queue lib evs idle_worker))).
                     item_status it \<noteq> Pending
         | Some it \<Rightarrow>
             \<exists>i<length (queue (ws_queue (run_queue lib evs idle_worker))).
                item_status (queue (ws_queue (run_queue lib evs idle_worker)) ! i) = Pending
                \<and> it = (queue (ws_queue (run_queue lib evs idle_worker)) ! i)
                         \<lparr>item_status := Processing, item_processing_time := Some now'\<rparr>
                \<and> (\<forall>it'\<in>set (queue (ws_queue (run_queue lib evs idle_worker))).
                       item_status it' = Pending \<longrightarrow>
                       item_sequence (queue (ws_queue (run_queue lib evs idle_worker)) ! i)
                         \<le> item_sequence it'))
     \<and> ((\<forall>it\<in>set (queue (ws_queue (run_queue lib evs idle_worker))). well_behaved it) \<longrightarrow>
          (\<forall>j<length (queue (ws_queue (run_queue lib evs idle_worker))).
              item_status (queue (ws_queue (run_queue lib evs idle_worker)) ! j) \<noteq> Pending \<longrightarrow>
              (\<forall>i<j. item_status (queue (ws_queue (run_queue lib evs idle_worker)) ! i)
                        = Completed)))"
proof (intro conjI)
  show "\<exists>it. queue (snd (enqueue now req q)) = queue q @ [it]
              \<and> item_sequence it = length (queue q) \<and> item_status it = Pending"
    using enqueue_queue [of now req q] by blast
next
  let ?q = "ws_queue (run_queue lib evs idle_worker)"
  have "sequence_inv ?q" by (rule run_queue_sequence_inv [OF assms])
  then show "case fst (dequeue now' ?q) of
           None \<Rightarrow> \<forall>it\<in>set (queue ?q). item_status it \<noteq> Pending
         | Some it \<Rightarrow>
             \<exists>i<length (queue ?q). item_status (queue ?q ! i) = Pending
                \<and> it = (queue ?q ! i)\<lparr>item_status := Processing, item_processing_time := Some now'\<rparr>
                \<and> (\<forall>it'\<in>set (queue ?q). item_status it' = Pending \<longrightarrow>
                       item_sequence (queue ?q ! i) \<le> item_sequence it')"
    by (rule sequence_inv_dequeue_lowest)
next
  let ?ws = "run_queue lib evs idle_worker"
  show "(\<forall>it\<in>set (queue (ws_queue ?ws)). well_behaved it) \<longrightarrow>
          (\<forall>j<length (queue (ws_queue ?ws)).
              item_status (queue (ws_queue ?ws) ! j) \<noteq> Pending \<longrightarrow>
              (\<forall>i<j. item_status (queue (ws_queue ?ws) ! i) = Completed))"
  proof
    assume "\<forall>it\<in>set (queue (ws_queue ?ws)). well_behaved it"
    with assms have "fifo_inv ?ws" by (rule run_queue_fifo_inv)
    then show "\<forall>j<length (queue (ws_queue ?ws)).
              item_status (queue (ws_queue ?ws) ! j) \<noteq> Pending \<longrightarrow>
              (\<forall>i<j. item_status (queue (ws_queue ?ws) ! i) = Completed)"
      by (simp add: fifo_inv_def Let_def)
  qed
qed

lemma sample_events_run:
  "map (\<lambda>it. (item_id it, item_sequence it, item_status it))
       (queue (ws_queue (run_queue sample_library sample_events idle_worker)))
     = [(''a'', 0, Completed), (''b'', 1, Pending), (''c'', 2, Pending)]"
  "processing (ws_queue (run_queue sample_library sample_events idle_worker)) = {}"
  by (simp_all add: sample_events_def idle_worker_def enqueue_def sample_request_def Let_def
      dequeue_def eligible_def sample_env_def execute_proxy_command_def
      parse_feedback_def sample_library_def strip_braces run_callback_def
      complete_def)

theorem queue_is_fifo_witness:
  "distinct (map item_id (queue (ws_queue (run_queue sample_library sample_events idle_worker))))
   \<and> map item_status (queue (ws_queue (run_queue sample_library sample_events idle_worker)))
       = [Completed, Pending, Pending]
   \<and> map_option item_sequence
        (fst (dequeue 20 (ws_queue (run_queue sample_library sample_events idle_worker)))) = Some 1"
proof -
  let ?q = "ws_queue (run_queue sample_library sample_events idle_worker)"
  have ids: "map item_id (queue ?q) = [''a'', ''b'', ''c'']"
    using sample_events_run(1) [THEN arg_cong, of "map fst"] by (simp add: comp_def)
  have sts: "map item_status (queue ?q) = [Completed, Pending, Pending]"
    using sample_events_run(1) [THEN arg_cong, of "map (\<lambda>t. snd (snd t))"] by (simp add: comp_def)
  have sqs: "map item_sequence (queue ?q) = [0, 1, 2]"
    using sample_events_run(1) [THEN arg_cong, of "map (\<lambda>t. fst (snd t))"] by (simp add: comp_def)
  have h: "distinct (map item_id (queue ?q))" by (simp add: ids)
  have len: "length (queue ?q) = 3"
    using sts [THEN arg_cong, of length] by simp
  have "item_status (queue ?q ! 0) = map item_status (queue ?q) ! 0"
    and "item_status (queue ?q ! 1) = map item_status (queue ?q) ! 1"
    and "item_sequence (queue ?q ! 1) = map item_sequence (queue ?q) ! 1"
    using len by simp_all
  then have st0: "item_status (queue ?q ! 0) = Completed"
    and st1: "item_status (queue ?q ! 1) = Pending"
    and sq1: "item_sequence (queue ?q ! 1) = 1"
    by (simp_all add: sts sqs)
  have fi: "first_index (eligible (processing ?q)) (queue ?q) = Some 1"
  proof (rule first_index_SomeI)
    show "1 < length (queue ?q)" using len by simp
    show "eligible (processing ?q) (queue ?q ! 1)"
      using st1 by (simp add: eligible_def sample_events_run(2))
    show "\<forall>j<1. \<not> eligible (processing ?q) (queue ?q ! j)"
      using st0 by (simp add: eligible_def)
  qed
  from fi sq1 have dq: "map_option item_sequence (fst (dequeue 20 ?q)) = Some 1"
    by (simp add: dequeue_def Let_def)
  from queue_is_fifo [OF h] h sts dq show ?thesis by simp
qed

text \<open>
  Claim C7 as stated fails when two items carry the same id: the first is handed out, the
  second is pending but its id is in the processing set, and the next \<open>dequeue\<close> passes
  over it and returns the item with sequence number 2.
\<close>

theorem dequeue_skips_pending_counterexample:
  "item_status (queue (snd (dequeue 10 same_id_queue)) ! 1) = Pending
   \<and> item_sequence (queue (snd (dequeue 10 same_id_queue)) ! 1) = 1
   \<and> map_option item_sequence (fst (dequeue 11 (snd (dequeue 10 same_id_queue)))) = Some 2"
  by (simp add: same_id_queue_def enqueue_def sample_request_def empty_queue_def Let_def
      dequeue_def eligible_def)


section \<open>Properties of the RPC channel\<close>


lemma try_body_response:
  "response_of cfg lib env = Some response \<Longrightarrow>
   try_body cfg lib env =
     (case check_response lib response of Inl e \<Rightarrow> TryRaise e | Inr r \<Rightarrow> TryReturn r)"
  by (auto simp: response_of_def try_body_def Let_def split: option.splits sum.splits if_splits)

lemma contains_append_left: "contains p (p @ s)"
proof -
  have "startswith (p @ s) p" by (induction p) simp_all
  then show ?thesis by (cases "p @ s") auto
qed

lemma contains_auth_error: "contains auth_failed (str_exc (auth_error error_msg))"
  by (simp add: auth_error_def contains_append_left)

lemma handler_auth_error:
  "handler cfg retry_on_failure max_retries (auth_error error_msg) v
     = (Raise (auth_error error_msg), v, [])"
  using contains_auth_error [of error_msg]
  by (simp add: handler_def auth_error_def)

lemma py_getitem_in:
  "py_getitem response k = Inr err \<Longrightarrow> py_in k response = Inr True"
proof (cases response)
  case (JDict kvs)
  assume "py_getitem response k = Inr err"
  with JDict have "map_of kvs k = Some err" by (simp split: option.splits)
  then have "k \<in> fst ` set kvs" by (meson domI domIff map_of_eq_None_iff)
  with JDict show ?thesis by simp
qed simp_all

text \<open>
  Claim C3. When an attempt of \<open>_call\<close> decodes a response whose \<open>error\<close> member has a
  message that mentions auth, password or login, that iteration raises the
  authentication failure: there is no further attempt and no sleep, whatever the retry
  count, the retry budget and \<open>retry_on_failure\<close> are.
\<close>

theorem auth_error_not_retried:
  assumes "int (retry_count v) \<le> max_retries"
    and "get_connection cfg (envs n) st = (Inr c, st1)"
    and "response_of cfg lib (envs n) = Some response"
    and "py_getitem response ''error'' = Inr err"
    and "error_message lib err = Inr error_msg"
    and "auth_flavoured error_msg"
  shows "call_loop cfg lib envs retry_on_failure max_retries v st slept n =
           \<lparr>outcome = Raised (auth_error error_msg),
            final_state = snd (return_connection cfg (envs n) c st1),
            sleeps = slept, attempts = Suc n\<rparr>"
proof -
  have "check_response lib response = Inl (auth_error error_msg)"
    using assms(4-6) py_getitem_in [OF assms(4)] by (simp add: check_response_def)
  with try_body_response [OF assms(3)]
  have "try_body cfg lib (envs n) = TryRaise (auth_error error_msg)" by simp
  with assms(2) have "attempt cfg lib (envs n) retry_on_failure max_retries v st =
      ((Raise (auth_error error_msg), v, []), snd (return_connection cfg (envs n) c st1))"
    by (simp add: attempt_def handler_auth_error)
  with assms(1) show ?thesis
    by (simp add: call_loop.simps)
qed

lemma lower_authentication: "lower ''Authentication failed'' = ''authentication failed''"
  by code_simp

theorem auth_error_not_retried_witness:
  "outcome (call default_config sample_library (\<lambda>n. reply_env 7 ''{error}'') True 3 initial_state)
     = Raised (auth_error ''Authentication failed'')
   \<and> attempts (call default_config sample_library (\<lambda>n. reply_env 7 ''{error}'') True 3 initial_state) = 1
   \<and> sleeps (call default_config sample_library (\<lambda>n. reply_env 7 ''{error}'') True 3 initial_state) = []"
proof -
  let ?envs = "\<lambda>n::nat. reply_env 7 ''{error}''"
  let ?v = "\<lparr>retry_count = 0, current_delay = retry_delay default_config\<rparr>"
  let ?err = "JDict [(''code'', JInt 401), (''message'', JStr ''Authentication failed'')]"
  have h1: "int (retry_count ?v) \<le> 3" by simp
  have h2: "get_connection default_config (?envs 0) initial_state
              = (Inr 7, initial_state\<lparr>connection_pool := []\<rparr>)"
    by (simp add: get_connection_def default_config_def initial_state_def reply_env_def)
  have h3: "response_of default_config sample_library (?envs 0) = Some (JDict [(''error'', ?err)])"
    by (simp add: response_of_def reply_env_def unwrap_response_def compressed_marker_def
        sample_library_def)
  have h4: "py_getitem (JDict [(''error'', ?err)]) ''error'' = Inr ?err" by simp
  have h5: "error_message sample_library ?err = Inr ''Authentication failed''"
    by (simp add: error_message_def)
  have h6: "auth_flavoured ''Authentication failed''"
    by (simp add: auth_flavoured_def lower_authentication)
  from auth_error_not_retried [where envs = ?envs and n = 0 and v = ?v and max_retries = 3
      and retry_on_failure = True and slept = "[]", OF h1 h2 h3 h4 h5 h6]
  show ?thesis by (simp add: call_def)
qed



lemma backoff_nonneg:
  "0 \<le> d \<Longrightarrow> 0 \<le> max_retry_delay cfg \<Longrightarrow> 0 \<le> backoff cfg rc d"
  by (simp add: backoff_def)

lemma retry_in_handler_nonneg:
  assumes "0 \<le> current_delay v" and "0 \<le> max_retry_delay cfg"
  shows "retry_in_handler cfg v =
           (Continue, \<lparr>retry_count = Suc (retry_count v),
                       current_delay = backoff cfg (Suc (retry_count v)) (current_delay v)\<rparr>,
            [backoff cfg (Suc (retry_count v)) (current_delay v)])"
  using backoff_nonneg [OF assms, of "Suc (retry_count v)"]
  by (simp add: retry_in_handler_def retry_sleep_def Let_def)

lemma handler_retries:
  assumes "retried_by_handler e" and "0 \<le> current_delay v" and "0 \<le> max_retry_delay cfg"
  shows "handler cfg retry_on_failure max_retries e v =
           (if may_retry retry_on_failure max_retries v
            then (Continue, \<lparr>retry_count = Suc (retry_count v),
                       current_delay = backoff cfg (Suc (retry_count v)) (current_delay v)\<rparr>,
                  [backoff cfg (Suc (retry_count v)) (current_delay v)])
            else (Raise e, v, []))"
  using assms(1) retry_in_handler_nonneg [OF assms(2,3)]
  by (cases e) (simp_all add: handler_def retried_by_handler_def)

lemma on_empty_nonneg:
  assumes "0 \<le> current_delay v" and "0 \<le> max_retry_delay cfg"
  shows "on_empty cfg retry_on_failure max_retries v =
           (if may_retry retry_on_failure max_retries v
            then (Continue, \<lparr>retry_count = Suc (retry_count v),
                       current_delay = backoff cfg (Suc (retry_count v)) (current_delay v)\<rparr>,
                  [backoff cfg (Suc (retry_count v)) (current_delay v)])
            else (Raise empty_response, v, []))"
  using backoff_nonneg [OF assms, of "Suc (retry_count v)"]
  by (simp add: on_empty_def retry_sleep_def Let_def handler_def empty_response_def)

lemma attempt_retried:
  assumes "retried_failure cfg lib env st"
    and "0 \<le> current_delay v" and "0 \<le> max_retry_delay cfg"
  shows "\<exists>e st'. attempt cfg lib env retry_on_failure max_retries v st =
           ((if may_retry retry_on_failure max_retries v
             then (Continue, \<lparr>retry_count = Suc (retry_count v),
                       current_delay = backoff cfg (Suc (retry_count v)) (current_delay v)\<rparr>,
                   [backoff cfg (Suc (retry_count v)) (current_delay v)])
             else (Raise e, v, [])), st')"
proof -
  obtain g st1 where g: "get_connection cfg env st = (g, st1)"
    by (cases "get_connection cfg env st")
  show ?thesis
  proof (cases g)
    case (Inl e)
    with assms(1) g have "retried_by_handler e" by (simp add: retried_failure_def)
    from handler_retries [OF this assms(2,3)] g Inl show ?thesis
      by (auto simp: attempt_def)
  next
    case (Inr c)
    show ?thesis
    proof (cases "try_body cfg lib env")
      case (TryReturn r)
      with assms(1) g Inr show ?thesis by (simp add: retried_failure_def)
    next
      case TryEmpty
      with on_empty_nonneg [OF assms(2,3)] g Inr show ?thesis
        by (auto simp: attempt_def)
    next
      case (TryRaise e)
      with assms(1) g Inr have "retried_by_handler e" by (simp add: retried_failure_def)
      from handler_retries [OF this assms(2,3)] g Inr TryRaise show ?thesis
        by (auto simp: attempt_def)
    qed
  qed
qed

lemma call_loop_retried:
  assumes tr: "\<forall>n st. retried_failure cfg lib (envs n) st"
    and M: "0 \<le> max_retry_delay cfg"
  shows "0 \<le> d \<Longrightarrow> int rc + int k = max_retries \<Longrightarrow>
         \<exists>e st'. call_loop cfg lib envs True max_retries
                    \<lparr>retry_count = rc, current_delay = d\<rparr> st slept n =
                  \<lparr>outcome = Raised e, final_state = st',
                   sleeps = slept @ delays cfg rc d k, attempts = n + k + 1\<rparr>"
proof (induction k arbitrary: rc d st slept n)
  case 0
  let ?v = "\<lparr>retry_count = rc, current_delay = d\<rparr>"
  from 0 have no: "\<not> may_retry True max_retries ?v" by (simp add: may_retry_def)
  from tr have "retried_failure cfg lib (envs n) st" by simp
  from attempt_retried [OF this, of ?v True max_retries] 0 M no
  obtain e st' where "attempt cfg lib (envs n) True max_retries ?v st = ((Raise e, ?v, []), st')"
    by auto
  with 0 show ?case by (simp add: call_loop.simps)
next
  case (Suc k)
  let ?v = "\<lparr>retry_count = rc, current_delay = d\<rparr>"
  let ?d = "backoff cfg (Suc rc) d"
  let ?v' = "\<lparr>retry_count = Suc rc, current_delay = ?d\<rparr>"
  from Suc.prems have yes: "may_retry True max_retries ?v" by (simp add: may_retry_def)
  from tr have "retried_failure cfg lib (envs n) st" by simp
  from attempt_retried [OF this, of ?v True max_retries] Suc.prems M yes
  obtain st' where a: "attempt cfg lib (envs n) True max_retries ?v st = ((Continue, ?v', [?d]), st')"
    by auto
  have d': "0 \<le> ?d" using Suc.prems(1) M by (rule backoff_nonneg)
  from Suc.prems(2) have "int (Suc rc) + int k = max_retries" by simp
  from Suc.IH [OF d' this, of st' "slept @ [?d]" "Suc n"]
  obtain e st'' where "call_loop cfg lib envs True max_retries ?v' st' (slept @ [?d]) (Suc n) =
      \<lparr>outcome = Raised e, final_state = st'',
       sleeps = (slept @ [?d]) @ delays cfg (Suc rc) ?d k, attempts = Suc n + k + 1\<rparr>"
    by blast
  with a Suc.prems(2) show ?case
    by (subst call_loop.simps) simp
qed







lemma empty_read_retried:
  "retried_failure cfg sample_library (reply_env c []) st"
proof -
  have t: "try_body cfg sample_library (reply_env c []) = TryEmpty"
    by (simp add: try_body_def reply_env_def unwrap_response_def compressed_marker_def)
  obtain g st1 where g: "get_connection cfg (reply_env c []) st = (g, st1)"
    by (cases "get_connection cfg (reply_env c []) st")
  then have "\<exists>c'. g = Inr c'"
    by (auto simp: get_connection_def reply_env_def Let_def split: if_splits list.splits)
  with g t show ?thesis by (auto simp: retried_failure_def)
qed





lemma default_backoff_delays:
  "delays backoff_config 0 (retry_delay backoff_config) 3 = [1, 4, 10]"
  by (simp add: backoff_config_def default_config_def backoff_def numeral_3_eq_3)



lemma startswith_append: "startswith (p @ s) p"
  by (induction p) simp_all

text \<open>The request path writes the marker in full, eleven bytes, before the compressed data.\<close>

lemma frame_request_marked:
  assumes "enable_compression cfg" and "length (gzip_compress lib d) < length d"
  shows "frame_request cfg lib d = compressed_marker @ gzip_compress lib d"
    and "length compressed_marker = 11"
  using assms by (simp_all add: frame_request_def compress_data_def Let_def compressed_marker_def)

lemma recv_loop_single:
  "chunk \<noteq> [] \<Longrightarrow> recv_loop [Inr chunk] [] = Inr chunk"
  by simp

text \<open>
  Claim C1 fails on the code. The marker \<open>COMPRESSED:\<close> has eleven bytes and the code
  drops ten: with a decompressor that, like gzip, rejects data that starts with a colon
  (it lacks the magic bytes 1F 8B), the payload handed to \<open>json.loads\<close> for a marked
  response that carries the compressed form \<open>z\<close> of a document is the colon followed by
  \<open>z\<close>, still compressed, and not the document.
\<close>

theorem marked_response_keeps_colon:
  assumes "\<forall>z. gzip_decompress lib (CHR '':'' # z) = None"
  shows "unwrap_response cfg lib (compressed_marker @ gzip_compress lib d)
           = CHR '':'' # gzip_compress lib d
     \<and> response_of cfg lib (reply_env c (compressed_marker @ gzip_compress lib d))
           = (case json_loads lib (CHR '':'' # gzip_compress lib d) of
                Inl e \<Rightarrow> None | Inr response \<Rightarrow> Some response)"
proof -
  let ?z = "gzip_compress lib d"
  from assms have n: "gzip_decompress lib (CHR '':'' # ?z) = None" by blast
  have dr: "drop 10 (compressed_marker @ ?z) = CHR '':'' # ?z"
    by (simp add: compressed_marker_def)
  have u: "unwrap_response cfg lib (compressed_marker @ ?z) = CHR '':'' # ?z"
    using n by (simp add: unwrap_response_def decompress_data_def compressed_marker_def)
  have ne: "compressed_marker @ ?z \<noteq> []" by (simp add: compressed_marker_def)
  have e1: "send_result (reply_env c (compressed_marker @ ?z)) = None"
    by (simp add: reply_env_def)
  have e2: "recv_chunks (reply_env c (compressed_marker @ ?z)) = [Inr (compressed_marker @ ?z)]"
    using ne by (simp add: reply_env_def)
  have e3: "recv_loop [Inr (compressed_marker @ ?z)] [] = Inr (compressed_marker @ ?z)"
    using ne by (rule recv_loop_single)
  have "response_of cfg lib (reply_env c (compressed_marker @ ?z))
           = (case json_loads lib (CHR '':'' # ?z) of
                Inl e \<Rightarrow> None | Inr response \<Rightarrow> Some response)"
    unfolding response_of_def e1 e2 e3 by (simp add: u)
  with u show ?thesis by simp
qed

theorem marked_response_keeps_colon_witness:
  "unwrap_response default_config sample_library
       (compressed_marker @ gzip_compress sample_library ''{}'')
     = CHR '':'' # gzip_compress sample_library ''{}''
   \<and> unwrap_response default_config sample_library
       (compressed_marker @ gzip_compress sample_library ''{}'') \<noteq> ''{}''
   \<and> gzip_decompress sample_library (gzip_compress sample_library ''{}'') = Some ''{}''"
proof -
  have h: "\<forall>z. gzip_decompress sample_library (CHR '':'' # z) = None"
    by (simp add: sample_library_def)
  from marked_response_keeps_colon [OF h, of default_config "''{}''" 7]
  show ?thesis by (simp add: sample_library_def)
qed

text \<open>
  Claim C5, as amended. An iteration of \<open>_call\<close> that acquired a connection hands it to
  \<open>_return_connection\<close> in its \<open>finally\<close> clause whatever the outcome of the attempt: the
  connection goes to the tail of the pool when pooling is enabled and the pool is not
  full, and is closed otherwise. An iteration that could not acquire a connection returns
  none.
\<close>

theorem attempt_hands_back_connection:
  "(get_connection cfg env st = (Inr c, st1) \<longrightarrow>
      snd (attempt cfg lib env retry_on_failure max_retries v st)
        = snd (return_connection cfg env c st1)
      \<and> (if enable_connection_pool cfg \<and> \<not> pool_full cfg st1
         then connection_pool (snd (attempt cfg lib env retry_on_failure max_retries v st))
                = connection_pool st1 @ [c]
         else connection_pool (snd (attempt cfg lib env retry_on_failure max_retries v st))
                = connection_pool st1
              \<and> c \<in> closed_connections
                     (snd (attempt cfg lib env retry_on_failure max_retries v st))))
   \<and> (get_connection cfg env st = (Inl e, st1) \<longrightarrow>
        snd (attempt cfg lib env retry_on_failure max_retries v st) = st1)"
  by (simp add: attempt_def return_connection_def)

theorem attempt_hands_back_connection_witness:
  "get_connection default_config (reply_env 7 []) initial_state
      = (Inr 7, initial_state\<lparr>connection_pool := []\<rparr>)
   \<and> try_body default_config sample_library (reply_env 7 []) = TryEmpty
   \<and> connection_pool (snd (attempt default_config sample_library (reply_env 7 []) True 3
        \<lparr>retry_count = 0, current_delay = 0.5\<rparr> initial_state)) = [7]"
proof -
  have g: "get_connection default_config (reply_env 7 []) initial_state
      = (Inr 7, initial_state\<lparr>connection_pool := []\<rparr>)"
    by (simp add: get_connection_def default_config_def initial_state_def reply_env_def)
  have t: "try_body default_config sample_library (reply_env 7 []) = TryEmpty"
    by (simp add: try_body_def reply_env_def unwrap_response_def compressed_marker_def)
  have p: "enable_connection_pool default_config
           \<and> \<not> pool_full default_config (initial_state\<lparr>connection_pool := []\<rparr>)"
    by (simp add: default_config_def pool_full_def initial_state_def)
  from attempt_hands_back_connection [of default_config "reply_env 7 []" initial_state 7
      "initial_state\<lparr>connection_pool := []\<rparr>" sample_library True 3
      "\<lparr>retry_count = 0, current_delay = 0.5\<rparr>"] g t p
  show ?thesis
    by (simp add: initial_state_def return_connection_def pool_full_def default_config_def)
qed

text \<open>
  Claim C5 as stated fails: a single attempt that reads the empty response raises, and the
  connection it used is in the pool afterwards.
\<close>

theorem empty_read_connection_pooled_counterexample:
  "try_body default_config sample_library (reply_env 7 []) = TryEmpty
   \<and> outcome (call default_config sample_library (\<lambda>n. reply_env 7 []) True 0 initial_state)
       = Raised empty_response
   \<and> connection_pool
       (final_state (call default_config sample_library (\<lambda>n. reply_env 7 []) True 0 initial_state))
       = [7]"
  by (simp add: call_def call_loop.simps attempt_def get_connection_def default_config_def
      initial_state_def reply_env_def try_body_def unwrap_response_def compressed_marker_def
      on_empty_def may_retry_def handler_def empty_response_def return_connection_def
      pool_full_def)


section \<open>Properties of \<open>execute\<close> and its cache\<close>


lemma get_connection_cache:
  "command_cache (snd (get_connection cfg env st)) = command_cache st"
  by (simp add: get_connection_def Let_def split: list.splits)

lemma return_connection_cache:
  "command_cache (snd (return_connection cfg env c st)) = command_cache st"
  by (simp add: return_connection_def)

lemma attempt_cache:
  "command_cache (snd (attempt cfg lib env retry_on_failure max_retries v st)) = command_cache st"
proof -
  obtain g st1 where g: "get_connection cfg env st = (g, st1)"
    by (cases "get_connection cfg env st")
  with get_connection_cache [of cfg env st] have "command_cache st1 = command_cache st" by simp
  with g show ?thesis
    by (cases g) (simp_all add: attempt_def return_connection_cache)
qed

lemma call_loop_cache:
  "command_cache (final_state (call_loop cfg lib envs retry_on_failure max_retries v st slept n))
     = command_cache st"
proof (induction cfg lib envs retry_on_failure max_retries v st slept n rule: call_loop.induct)
  case (1 cfg lib envs retry_on_failure max_retries v st slept n)
  show ?case
  proof (cases "int (retry_count v) \<le> max_retries")
    case False
    then show ?thesis by (simp add: call_loop.simps)
  next
    case True
    obtain s v' sl st' where a:
      "attempt cfg lib (envs n) retry_on_failure max_retries v st = ((s, v', sl), st')"
      by (metis prod.exhaust)
    with attempt_cache [of cfg lib "envs n" retry_on_failure max_retries v st]
    have c: "command_cache st' = command_cache st" by simp
    show ?thesis
    proof (cases s)
      case (Return r)
      with True a c show ?thesis by (simp add: call_loop.simps)
    next
      case (Raise e)
      with True a c show ?thesis by (simp add: call_loop.simps)
    next
      case Continue
      with "1.IH" [OF True a [symmetric] refl Continue refl] True a c
      show ?thesis by (simp add: call_loop.simps)
    qed
  qed
qed

lemma call_cache:
  "command_cache (final_state (call cfg lib envs retry_on_failure max_retries st))
     = command_cache st"
  by (simp add: call_def call_loop_cache)

lemma execute_miss:
  assumes "use_cache \<longrightarrow> cache_lookup cfg (now_cache_check env) (cache_key server command) st = None"
    and "outcome (call cfg lib (call_envs env) True 3 st) = Raised e"
  shows "execute cfg lib env server command use_cache st =
           \<lparr>returned = Inl e,
            state_after = final_state (call cfg lib (call_envs env) True 3 st),
            network_attempts = attempts (call cfg lib (call_envs env) True 3 st)\<rparr>"
  using assms by (simp add: execute_def Let_def)

text \<open>
  Claim C4, as amended. \<open>execute\<close> (called without \<open>wait_for_restart\<close>) catches nothing:
  on a cache miss, whatever \<open>_call\<close> raises is raised by \<open>execute\<close>, and the cache is left
  as it was. In particular a failure that persists through the retry budget in a class
  that \<open>_call\<close> retries (transport error, timeout, undecodable or empty response, server
  error) makes \<open>execute\<close> raise, after four attempts.
\<close>

theorem execute_raises_call_failures:
  assumes "use_cache \<longrightarrow> cache_lookup cfg (now_cache_check env) (cache_key server command) st = None"
  shows "(\<forall>e. outcome (call cfg lib (call_envs env) True 3 st) = Raised e \<longrightarrow>
            returned (execute cfg lib env server command use_cache st) = Inl e
            \<and> command_cache (state_after (execute cfg lib env server command use_cache st))
                = command_cache st)
     \<and> ((\<forall>n s. retried_failure cfg lib (call_envs env n) s)
          \<and> 0 \<le> retry_delay cfg \<and> 0 \<le> max_retry_delay cfg \<longrightarrow>
            (\<exists>e. returned (execute cfg lib env server command use_cache st) = Inl e)
            \<and> network_attempts (execute cfg lib env server command use_cache st) = 4)"
proof (intro conjI allI impI)
  fix e assume r: "outcome (call cfg lib (call_envs env) True 3 st) = Raised e"
  from execute_miss [OF assms r]
  show "returned (execute cfg lib env server command use_cache st) = Inl e"
    and "command_cache (state_after (execute cfg lib env server command use_cache st))
           = command_cache st"
    by (simp_all add: call_cache)
next
  assume h: "(\<forall>n s. retried_failure cfg lib (call_envs env n) s)
          \<and> 0 \<le> retry_delay cfg \<and> 0 \<le> max_retry_delay cfg"
  then have "attempts (call cfg lib (call_envs env) True 3 st) = 4
     \<and> (\<exists>e. outcome (call cfg lib (call_envs env) True 3 st) = Raised e)"
    using call_loop_retried [of cfg lib "call_envs env" "retry_delay cfg" 0 3 3 st "[]" 0]
    by (auto simp: call_def)
  then obtain e where a: "attempts (call cfg lib (call_envs env) True 3 st) = 4"
    and r: "outcome (call cfg lib (call_envs env) True 3 st) = Raised e" by blast
  from execute_miss [OF assms r] a
  show "\<exists>e. returned (execute cfg lib env server command use_cache st) = Inl e"
    and "network_attempts (execute cfg lib env server command use_cache st) = 4"
    by simp_all
qed

theorem execute_raises_call_failures_witness:
  "cache_lookup default_config (now_cache_check empty_read_env) (cache_key ''local'' ''uptime'')
      initial_state = None
   \<and> 0 \<le> retry_delay default_config \<and> 0 \<le> max_retry_delay default_config
   \<and> (\<exists>e. returned (execute default_config sample_library empty_read_env ''local'' ''uptime'' True
             initial_state) = Inl e)
   \<and> network_attempts (execute default_config sample_library empty_read_env ''local'' ''uptime''
        True initial_state) = 4"
proof -
  have h1: "True \<longrightarrow> cache_lookup default_config (now_cache_check empty_read_env)
      (cache_key ''local'' ''uptime'') initial_state = None"
    by (simp add: cache_lookup_def initial_state_def)
  have h2: "\<forall>n s. retried_failure default_config sample_library (call_envs empty_read_env n) s"
    by (simp add: empty_read_env_def empty_read_retried)
  have h3: "0 \<le> retry_delay default_config" "0 \<le> max_retry_delay default_config"
    by (simp_all add: default_config_def)
  from execute_raises_call_failures [OF h1, of sample_library] h1 h2 h3
  show ?thesis by simp
qed

text \<open>
  Claim C4 as stated fails: with a peer that closes every connection without an answer (an
  empty read on each of the four attempts, not an authentication failure), \<open>execute\<close>
  raises \<open>Exception("Empty response from server")\<close> instead of returning a string.
\<close>

theorem execute_raises_on_empty_reads_counterexample:
  "returned (execute default_config sample_library empty_read_env ''local'' ''uptime'' True
      initial_state) = Inl empty_response
   \<and> \<not> contains auth_failed (str_exc empty_response)"
proof -
  have t: "\<And>c. try_body default_config sample_library (reply_env c []) = TryEmpty"
    by (simp add: try_body_def reply_env_def unwrap_response_def compressed_marker_def)
  have g: "\<And>st. \<exists>c st1. get_connection default_config (reply_env 7 []) st = (Inr c, st1)"
    by (auto simp: get_connection_def reply_env_def Let_def split: list.splits)
  have a: "\<exists>st'. attempt default_config sample_library (reply_env 7 []) True 3 v st
             = (on_empty default_config True 3 v, st')" for v st
    using g [of st] by (auto simp: attempt_def t)
  have b: "0 \<le> current_delay v \<Longrightarrow> retry_count v < 3 \<Longrightarrow>
           on_empty default_config True 3 v =
             (Continue, \<lparr>retry_count = Suc (retry_count v),
                         current_delay = backoff default_config (Suc (retry_count v)) (current_delay v)\<rparr>,
              [backoff default_config (Suc (retry_count v)) (current_delay v)])" for v
    using on_empty_nonneg [of v default_config True 3]
    by (simp add: may_retry_def default_config_def)
  have l: "on_empty default_config True 3 \<lparr>retry_count = 3, current_delay = d\<rparr>
             = (Raise empty_response, \<lparr>retry_count = 3, current_delay = d\<rparr>, [])" for d
    by (simp add: on_empty_def may_retry_def handler_def empty_response_def)
  have nn: "0 \<le> d \<Longrightarrow> 0 \<le> backoff default_config rc d" for d rc
    by (rule backoff_nonneg) (simp_all add: default_config_def)
  have last: "outcome (call_loop default_config sample_library (\<lambda>n. reply_env 7 []) True 3
                 \<lparr>retry_count = 3, current_delay = d\<rparr> st slept n) = Raised empty_response"
    for d st slept n
    using a [of "\<lparr>retry_count = 3, current_delay = d\<rparr>" st]
    by (subst call_loop.simps) (auto simp: l)
  have step: "\<exists>st' slept'. call_loop default_config sample_library (\<lambda>n. reply_env 7 []) True 3
           \<lparr>retry_count = rc, current_delay = d\<rparr> st slept n
         = call_loop default_config sample_library (\<lambda>n. reply_env 7 []) True 3
           \<lparr>retry_count = Suc rc, current_delay = backoff default_config (Suc rc) d\<rparr>
           st' slept' (Suc n)" if "0 \<le> d" and "rc < 3" for d rc st slept n
  proof -
    let ?v = "\<lparr>retry_count = rc, current_delay = d\<rparr>"
    let ?v' = "\<lparr>retry_count = Suc rc, current_delay = backoff default_config (Suc rc) d\<rparr>"
    from a [of ?v st] obtain st' where
      "attempt default_config sample_library (reply_env 7 []) True 3 ?v st
         = (on_empty default_config True 3 ?v, st')" by blast
    with b [of ?v] that have
      "attempt default_config sample_library (reply_env 7 []) True 3 ?v st
         = ((Continue, ?v', [backoff default_config (Suc rc) d]), st')" by simp
    with that(2) have
      "call_loop default_config sample_library (\<lambda>n. reply_env 7 []) True 3 ?v st slept n
         = call_loop default_config sample_library (\<lambda>n. reply_env 7 []) True 3 ?v' st'
             (slept @ [backoff default_config (Suc rc) d]) (Suc n)"
      by (subst call_loop.simps) simp
    then show ?thesis by blast
  qed
  let ?d0 = "retry_delay default_config"
  let ?d1 = "backoff default_config 1 ?d0"
  let ?d2 = "backoff default_config 2 ?d1"
  let ?d3 = "backoff default_config 3 ?d2"
  have d0: "0 \<le> ?d0" by (simp add: default_config_def)
  have d1: "0 \<le> ?d1" using d0 by (rule nn)
  have d2: "0 \<le> ?d2" using d1 by (rule nn)
  have "outcome (call default_config sample_library (\<lambda>n. reply_env 7 []) True 3 initial_state)
          = Raised empty_response"
  proof -
    from step [OF d0, of 0 initial_state "[]" 0] obtain s1 p1 where
      "call default_config sample_library (\<lambda>n. reply_env 7 []) True 3 initial_state
        = call_loop default_config sample_library (\<lambda>n. reply_env 7 []) True 3
           \<lparr>retry_count = 1, current_delay = ?d1\<rparr> s1 p1 1"
      by (auto simp: call_def)
    moreover from step [OF d1, of 1 s1 p1 1] obtain s2 p2 where
      "call_loop default_config sample_library (\<lambda>n. reply_env 7 []) True 3
           \<lparr>retry_count = 1, current_delay = ?d1\<rparr> s1 p1 1
        = call_loop default_config sample_library (\<lambda>n. reply_env 7 []) True 3
           \<lparr>retry_count = 2, current_delay = ?d2\<rparr> s2 p2 2"
      by (auto simp: numeral_2_eq_2)
    moreover from step [OF d2, of 2 s2 p2 2] obtain s3 p3 where
      "call_loop default_config sample_library (\<lambda>n. reply_env 7 []) True 3
           \<lparr>retry_count = 2, current_delay = ?d2\<rparr> s2 p2 2
        = call_loop default_config sample_library (\<lambda>n. reply_env 7 []) True 3
           \<lparr>retry_count = 3, current_delay = ?d3\<rparr> s3 p3 3"
      by (auto simp: numeral_3_eq_3 numeral_2_eq_2)
    ultimately show ?thesis by (simp add: last)
  qed
  moreover have "cache_lookup default_config (now_cache_check empty_read_env)
      (cache_key ''local'' ''uptime'') initial_state = None"
    by (simp add: cache_lookup_def initial_state_def)
  ultimately have "returned (execute default_config sample_library empty_read_env ''local''
      ''uptime'' True initial_state) = Inl empty_response"
    by (simp add: execute_def Let_def empty_read_env_def)
  moreover have "\<not> contains auth_failed (str_exc empty_response)"
    by (simp add: empty_response_def auth_failed_def)
  ultimately show ?thesis by simp
qed

lemma execute_hit:
  assumes "cache_lookup cfg (now_cache_check env) (cache_key server command) st = Some cached"
  shows "execute cfg lib env server command True st =
           \<lparr>returned = Inr cached, state_after = st, network_attempts = 0\<rparr>"
  using assms by (simp add: execute_def)

lemma cache_lookup_Some:
  "cache_lookup cfg now k st = Some res \<Longrightarrow> \<exists>stamp. command_cache st k = Some (res, stamp)"
  by (auto simp: cache_lookup_def split: option.splits if_splits)

lemma execute_stores:
  assumes "returned (execute cfg lib env server command True st) = Inr v"
  shows "\<exists>stamp. command_cache (state_after (execute cfg lib env server command True st))
                   (cache_key server command) = Some (v, stamp)
                 \<and> (cache_lookup cfg (now_cache_check env) (cache_key server command) st = None
                      \<longrightarrow> stamp = now_cache_store env)"
proof (cases "cache_lookup cfg (now_cache_check env) (cache_key server command) st")
  case (Some cached)
  with assms execute_hit [OF Some, of lib] cache_lookup_Some [OF Some] show ?thesis
    by auto
next
  case None
  with assms show ?thesis
    by (auto simp: execute_def Let_def cache_store_def
        split: sum.splits bool.splits)
qed

text \<open>
  Claim C9. When an \<open>execute\<close> call with \<open>use_cache=True\<close> returns a result, the cache
  holds that result under the key of the (server, command) pair, stamped with the time at
  which the call stored it if the call was a cache miss. A second call for the same pair
  whose clock reading is less than \<open>cache_expiry\<close> after that stamp returns the same
  result, makes no attempt on the network and leaves the state as it was.
\<close>

theorem cached_execute_repeats_result:
  assumes "returned (execute cfg lib env1 server command True st) = Inr v"
  shows "(\<exists>stamp. command_cache (state_after (execute cfg lib env1 server command True st))
                    (cache_key server command) = Some (v, stamp)
                 \<and> (cache_lookup cfg (now_cache_check env1) (cache_key server command) st = None
                      \<longrightarrow> stamp = now_cache_store env1))
     \<and> (\<forall>res stamp.
           command_cache (state_after (execute cfg lib env1 server command True st))
             (cache_key server command) = Some (res, stamp)
           \<and> now_cache_check env2 - stamp < cache_expiry cfg \<longrightarrow>
           returned (execute cfg lib env2 server command True
                      (state_after (execute cfg lib env1 server command True st))) = Inr v
           \<and> network_attempts (execute cfg lib env2 server command True
                      (state_after (execute cfg lib env1 server command True st))) = 0
           \<and> state_after (execute cfg lib env2 server command True
                      (state_after (execute cfg lib env1 server command True st)))
               = state_after (execute cfg lib env1 server command True st))"
proof (intro conjI allI impI)
  show "\<exists>stamp. command_cache (state_after (execute cfg lib env1 server command True st))
                    (cache_key server command) = Some (v, stamp)
                 \<and> (cache_lookup cfg (now_cache_check env1) (cache_key server command) st = None
                      \<longrightarrow> stamp = now_cache_store env1)"
    by (rule execute_stores [OF assms])
next
  fix res stamp
  let ?st1 = "state_after (execute cfg lib env1 server command True st)"
  assume h: "command_cache ?st1 (cache_key server command) = Some (res, stamp)
           \<and> now_cache_check env2 - stamp < cache_expiry cfg"
  from execute_stores [OF assms] h have "res = v" by auto
  with h have "cache_lookup cfg (now_cache_check env2) (cache_key server command) ?st1 = Some v"
    by (simp add: cache_lookup_def)
  from execute_hit [OF this, of lib]
  show "returned (execute cfg lib env2 server command True ?st1) = Inr v"
    and "network_attempts (execute cfg lib env2 server command True ?st1) = 0"
    and "state_after (execute cfg lib env2 server command True ?st1) = ?st1"
    by simp_all
qed

lemma first_call_result:
  "returned (execute default_config sample_library first_call_env ''local'' ''uptime'' True
      initial_state) = Inr (JStr ''{}'')"
  "command_cache (state_after (execute default_config sample_library first_call_env ''local''
      ''uptime'' True initial_state)) (cache_key ''local'' ''uptime'') = Some (JStr ''{}'', 102)"
  "network_attempts (execute default_config sample_library first_call_env ''local'' ''uptime'' True
      initial_state) = 1"
proof -
  have t: "try_body default_config sample_library (reply_env 7 ''{}'') = TryReturn (JDict [])"
    by (simp add: try_body_def reply_env_def unwrap_response_def compressed_marker_def
        sample_library_def check_response_def)
  have g: "get_connection default_config (reply_env 7 ''{}'') initial_state
             = (Inr 7, initial_state\<lparr>connection_pool := []\<rparr>)"
    by (simp add: get_connection_def default_config_def initial_state_def reply_env_def)
  have c: "call default_config sample_library (\<lambda>n. reply_env 7 ''{}'') True 3 initial_state =
             \<lparr>outcome = Returned (JDict []),
              final_state = snd (return_connection default_config (reply_env 7 ''{}'') 7
                                   (initial_state\<lparr>connection_pool := []\<rparr>)),
              sleeps = [], attempts = 1\<rparr>"
    by (simp add: call_def call_loop.simps attempt_def g t)
  have l: "cache_lookup default_config (now_cache_check first_call_env)
      (cache_key ''local'' ''uptime'') initial_state = None"
    by (simp add: cache_lookup_def initial_state_def)
  have ps: "py_str sample_library (JDict []) = ''{}''"
    by (simp add: sample_library_def)
  have e: "execute default_config sample_library first_call_env ''local'' ''uptime'' True
      initial_state =
        \<lparr>returned = Inr (JStr ''{}''),
         state_after = cache_store 102 (cache_key ''local'' ''uptime'') (JStr ''{}'')
            (snd (return_connection default_config (reply_env 7 ''{}'') 7
                                   (initial_state\<lparr>connection_pool := []\<rparr>))),
         network_attempts = 1\<rparr>"
    using l ps by (simp add: execute_def Let_def first_call_env_def c)
  show "returned (execute default_config sample_library first_call_env ''local'' ''uptime'' True
      initial_state) = Inr (JStr ''{}'')"
    and "command_cache (state_after (execute default_config sample_library first_call_env ''local''
      ''uptime'' True initial_state)) (cache_key ''local'' ''uptime'') = Some (JStr ''{}'', 102)"
    and "network_attempts (execute default_config sample_library first_call_env ''local'' ''uptime'' True
      initial_state) = 1"
    by (simp_all add: e cache_store_def)
qed

theorem cached_execute_repeats_result_witness:
  "returned (execute default_config sample_library first_call_env ''local'' ''uptime'' True
      initial_state) = Inr (JStr ''{}'')
   \<and> now_cache_check second_call_env - 102 < cache_expiry default_config
   \<and> returned (execute default_config sample_library second_call_env ''local'' ''uptime'' True
        (state_after (execute default_config sample_library first_call_env ''local'' ''uptime''
           True initial_state))) = Inr (JStr ''{}'')
   \<and> network_attempts (execute default_config sample_library second_call_env ''local'' ''uptime''
        True (state_after (execute default_config sample_library first_call_env ''local''
           ''uptime'' True initial_state))) = 0"
proof -
  have t: "now_cache_check second_call_env - 102 < cache_expiry default_config"
    by (simp add: second_call_env_def default_config_def)
  from cached_execute_repeats_result [OF first_call_result(1), of second_call_env]
    first_call_result(1,2) t
  show ?thesis by blast
qed


section \<open>Properties of the scenario detection\<close>


lemma std_dev_nonneg: "0 \<le> std_dev bs"
proof -
  have "0 \<le> sum_list (map (\<lambda>b. (b - mean bs) ^ 2) bs)"
    by (rule sum_list_nonneg) auto
  then have "0 \<le> variance bs" by (simp add: variance_def)
  then show ?thesis by (simp add: std_dev_def)
qed

lemma check_stability_never_very_unstable:
  assumes "sc \<noteq> very_unstable_network"
  shows "check_stability trend sc \<noteq> very_unstable_network"
proof -
  have "\<not> (\<not> std_dev bs > mean bs * 0.3 \<and> std_dev bs > mean bs * 0.5)" for bs
  proof (cases "0 \<le> mean bs")
    case True
    then have "mean bs * 0.3 \<le> mean bs * 0.5" by simp
    then show ?thesis by linarith
  next
    case False
    then have "mean bs * 0.3 < 0" by simp
    with std_dev_nonneg [of bs] show ?thesis by linarith
  qed
  with assms show ?thesis
    by (auto simp: check_stability_def Let_def)
qed

lemma check_latency_cases:
  "check_latency lib ns sc \<in> {sc, high_latency, very_high_latency}"
  by (simp add: check_latency_def split: option.splits)

lemma check_bandwidth_cases:
  "check_bandwidth lib ns sc \<in> {sc, low_bandwidth, very_low_bandwidth}"
  by (simp add: check_bandwidth_def split: option.splits)

lemma detect_never_very_unstable:
  "fst (detect_network_scenario lib fb proxy now history) \<noteq> very_unstable_network"
proof (cases fb)
  case None
  then show ?thesis by (simp add: detect_network_scenario_def)
next
  case (Some f)
  have "check_bandwidth lib (current_status f) local_network \<noteq> very_unstable_network"
    using check_bandwidth_cases [of lib "current_status f" local_network] by auto
  then have "check_latency lib (current_status f)
               (check_bandwidth lib (current_status f) local_network) \<noteq> very_unstable_network"
    using check_latency_cases [of lib "current_status f"
        "check_bandwidth lib (current_status f) local_network"] by auto
  from check_stability_never_very_unstable [OF this] Some show ?thesis
    by (simp add: detect_network_scenario_def Let_def)
qed

text \<open>
  Claim C6 fails on the code. The test for the unstable scenario comes first and the test
  for the very unstable one is its \<open>elif\<close>: a standard deviation above half the mean is
  also above three tenths of it, so with at least five measurements, at least three
  bandwidth values among the last five, a positive mean and no proxy, a coefficient of
  variation above 0.5 selects \<open>unstable_network\<close>; no input at all makes the function
  return \<open>very_unstable_network\<close>.
\<close>

theorem high_variation_selects_unstable:
  "fst (detect_network_scenario lib fb proxy now history) \<noteq> very_unstable_network
   \<and> (5 \<le> length (bandwidth_trend f) \<and> 3 \<le> length (last_bandwidths (bandwidth_trend f))
        \<and> 0 < mean (last_bandwidths (bandwidth_trend f))
        \<and> std_dev (last_bandwidths (bandwidth_trend f)) / mean (last_bandwidths (bandwidth_trend f))
            > 0.5
        \<longrightarrow> fst (detect_network_scenario lib (Some f) False now history) = unstable_network)"
proof (intro conjI impI)
  show "fst (detect_network_scenario lib fb proxy now history) \<noteq> very_unstable_network"
    by (rule detect_never_very_unstable)
next
  let ?bs = "last_bandwidths (bandwidth_trend f)"
  assume h: "5 \<le> length (bandwidth_trend f) \<and> 3 \<le> length ?bs \<and> 0 < mean ?bs
        \<and> std_dev ?bs / mean ?bs > 0.5"
  then have m: "0 < mean ?bs" and c: "0.5 < std_dev ?bs / mean ?bs" by simp_all
  from c m have "0.5 * mean ?bs < std_dev ?bs" by (simp add: field_simps)
  with m have "std_dev ?bs > mean ?bs * 0.3" by linarith
  with h show "fst (detect_network_scenario lib (Some f) False now history) = unstable_network"
    by (simp add: detect_network_scenario_def Let_def check_stability_def)
qed

lemma sample_bandwidths:
  "last_bandwidths (bandwidth_trend sample_feedback) = sample_values"
proof -
  have "length sample_values = 5" by (simp add: sample_values_def)
  then show ?thesis
    by (simp add: last_bandwidths_def sample_feedback_def sample_entry_def comp_def)
qed

lemma sample_mean: "mean sample_values = 0.33"
  by (simp add: mean_def sample_values_def)

lemma sample_variance: "variance sample_values = 0.0476"
  unfolding variance_def sample_mean by (simp add: sample_values_def power2_eq_square)

lemma sample_std_dev: "std_dev sample_values > 0.2"
proof -
  have "(0.2::real)\<^sup>2 < 0.0476" by (simp add: power2_eq_square)
  then have "0.2 < sqrt 0.0476" by (rule real_less_rsqrt)
  then show ?thesis by (simp only: std_dev_def sample_variance)
qed

theorem high_variation_selects_unstable_witness:
  "5 \<le> length (bandwidth_trend sample_feedback)
   \<and> 3 \<le> length (last_bandwidths (bandwidth_trend sample_feedback))
   \<and> 0 < mean (last_bandwidths (bandwidth_trend sample_feedback))
   \<and> std_dev (last_bandwidths (bandwidth_trend sample_feedback))
        / mean (last_bandwidths (bandwidth_trend sample_feedback)) > 0.5
   \<and> fst (detect_network_scenario sample_library (Some sample_feedback) False 0 [])
       = unstable_network"
proof -
  have h1: "5 \<le> length (bandwidth_trend sample_feedback)"
    by (simp add: sample_feedback_def sample_values_def)
  have h2: "3 \<le> length (last_bandwidths (bandwidth_trend sample_feedback))"
    by (simp add: sample_bandwidths) (simp add: sample_values_def)
  have h3: "0 < mean (last_bandwidths (bandwidth_trend sample_feedback))"
    by (simp add: sample_bandwidths sample_mean)
  have "(0.5::real) * 0.33 < 0.2" by simp
  with sample_std_dev have "0.5 * mean sample_values < std_dev sample_values"
    unfolding sample_mean by linarith
  then have h4: "std_dev (last_bandwidths (bandwidth_trend sample_feedback))
        / mean (last_bandwidths (bandwidth_trend sample_feedback)) > 0.5"
    using h3 by (simp add: sample_bandwidths field_simps)
  from high_variation_selects_unstable [of sample_library "Some sample_feedback" False 0 "[]"
      sample_feedback] h1 h2 h3 h4
  show ?thesis by simp
qed

end
